theory Spec2Isabelle
  imports Complex_Main "HOL-Library.AList"
begin

section \<open>Grids, grid buckets and their data dictionaries\<close>

text \<open>
  A grid is an object with an identity and the numbers of its cells, faces and nodes.
  The identity \<open>grid_id\<close> stands for the Python object identity: two grids with equal
  counts are still two dictionary keys. A mortar grid has cells only. A key of the grid
  bucket is a grid (a node of the bucket) or a pair of grids (an edge). Numbers of
  cells, faces, nodes and dofs are counts, so natural numbers.
\<close>

datatype grid = Grid (grid_id: nat) (num_cells: nat) (num_faces: nat) (num_nodes: nat)

datatype mortar_grid = MortarGrid (mg_num_cells: nat)

datatype grid_like = Node grid | Edge grid grid

text \<open>
  Numbers are the reals: the floating point values of numpy and scipy are idealised.
  A matrix carries its number of columns next to its rows, as a scipy matrix with no
  row still has a shape.
\<close>

datatype matrix = Matrix (ncols: nat) (mrows: "real list list")

definition nrows :: "matrix \<Rightarrow> nat" where
  "nrows m = length (mrows m)"

text \<open>
  The data dictionary \<open>d\<close> of a node or an edge. \<open>primary_variables\<close> is
  \<open>d[pp.PRIMARY_VARIABLES]\<close> when that key is present: a dictionary, in insertion order,
  from a variable name to the dictionary of its numbers of dofs per cell, face and node.
  \<open>parameters\<close> is \<open>d[pp.PARAMETERS]\<close>, read as \<open>d[pp.PARAMETERS][keyword]["bc_values"]\<close>,
  and \<open>discretization_matrices\<close> is \<open>d[pp.DISCRETIZATION_MATRICES]\<close>.
\<close>

record data =
  primary_variables :: "(string \<times> (string \<rightharpoonup> nat)) list option"
  parameters :: "string \<rightharpoonup> (string \<rightharpoonup> real list)"
  discretization_matrices :: "string \<rightharpoonup> (string \<rightharpoonup> matrix)"

text \<open>
  The grid bucket: its nodes with their data, in iteration order, and its edges with
  their mortar grid (\<open>d["mortar_grid"]\<close>) and data.
\<close>

record grid_bucket =
  gb_nodes :: "(grid \<times> data) list"
  gb_edges :: "((grid \<times> grid) \<times> mortar_grid \<times> data) list"

text \<open>Python exceptions, with the key that a \<open>KeyError\<close> reports.\<close>

datatype key = BlockKey grid_like string | GridKey grid_like | StrKey string | IdKey int

datatype error =
    KeyError key
  | IndexError
  | ValueError
  | TypeError
  | AssertionError
  | AttributeError

section \<open>The degree of freedom manager\<close>

text \<open>
  \<open>block_dof\<close> is a Python dictionary: an association list in insertion order, a
  second assignment to a key replacing the value in place (\<open>AList.update\<close>), so that
  \<open>len(block_dof)\<close> is its length. \<open>full_dof\<close> is the array of block sizes.
\<close>

record dof_manager =
  block_dof :: "((grid_like \<times> string) \<times> nat) list"
  full_dof :: "nat list"

text \<open>\<open>local_dofs.get(kind, 0)\<close>\<close>

definition dict_get :: "('k \<rightharpoonup> 'v) \<Rightarrow> 'k \<Rightarrow> 'v \<Rightarrow> 'v" where
  "dict_get m k dflt = (case m k of None \<Rightarrow> dflt | Some v \<Rightarrow> v)"

definition node_total_local_dofs :: "grid \<Rightarrow> (string \<rightharpoonup> nat) \<Rightarrow> nat" where
  "node_total_local_dofs g local_dofs =
     num_cells g * dict_get local_dofs ''cells'' 0
     + num_faces g * dict_get local_dofs ''faces'' 0
     + num_nodes g * dict_get local_dofs ''nodes'' 0"

definition edge_total_local_dofs :: "mortar_grid \<Rightarrow> (string \<rightharpoonup> nat) \<Rightarrow> nat" where
  "edge_total_local_dofs mg local_dofs = mg_num_cells mg * dict_get local_dofs ''cells'' 0"

text \<open>
  The state of the two loops of \<open>DofManager.__init__\<close>: the block counter, the
  dictionary and the list of sizes. The inner loops run over the items of
  \<open>d[pp.PRIMARY_VARIABLES]\<close>, the outer ones over the nodes and then the edges.
\<close>

type_synonym dof_state = "nat \<times> ((grid_like \<times> string) \<times> nat) list \<times> nat list"

fun node_variables_loop ::
  "grid \<Rightarrow> (string \<times> (string \<rightharpoonup> nat)) list \<Rightarrow> dof_state \<Rightarrow> dof_state" where
  "node_variables_loop g [] s = s"
| "node_variables_loop g ((local_var, local_dofs) # rest) (block_dof_counter, bd, fd) =
     node_variables_loop g rest
       (block_dof_counter + 1,
        AList.update (Node g, local_var) block_dof_counter bd,
        fd @ [node_total_local_dofs g local_dofs])"

fun nodes_loop :: "(grid \<times> data) list \<Rightarrow> dof_state \<Rightarrow> dof_state" where
  "nodes_loop [] s = s"
| "nodes_loop ((g, d) # rest) s =
     (case primary_variables d of
        None \<Rightarrow> nodes_loop rest s
      | Some pv \<Rightarrow> nodes_loop rest (node_variables_loop g pv s))"

fun edge_variables_loop ::
  "grid \<times> grid \<Rightarrow> mortar_grid \<Rightarrow> (string \<times> (string \<rightharpoonup> nat)) list \<Rightarrow> dof_state \<Rightarrow> dof_state" where
  "edge_variables_loop e mg [] s = s"
| "edge_variables_loop e mg ((local_var, local_dofs) # rest) (block_dof_counter, bd, fd) =
     edge_variables_loop e mg rest
       (block_dof_counter + 1,
        AList.update (Edge (fst e) (snd e), local_var) block_dof_counter bd,
        fd @ [edge_total_local_dofs mg local_dofs])"

fun edges_loop :: "((grid \<times> grid) \<times> mortar_grid \<times> data) list \<Rightarrow> dof_state \<Rightarrow> dof_state" where
  "edges_loop [] s = s"
| "edges_loop ((e, mg, d) # rest) s =
     (case primary_variables d of
        None \<Rightarrow> edges_loop rest s
      | Some pv \<Rightarrow> edges_loop rest (edge_variables_loop e mg pv s))"

definition DofManager_init :: "grid_bucket \<Rightarrow> dof_manager" where
  "DofManager_init gb =
     (case edges_loop (gb_edges gb) (nodes_loop (gb_nodes gb) (0, [], [])) of
        (block_dof_counter, bd, fd) \<Rightarrow> \<lparr>block_dof = bd, full_dof = fd\<rparr>)"

text \<open>\<open>np.cumsum\<close>, and \<open>np.hstack((0, np.cumsum(full_dof)))\<close>.\<close>

fun cumsum_from :: "nat \<Rightarrow> nat list \<Rightarrow> nat list" where
  "cumsum_from acc [] = []"
| "cumsum_from acc (x # xs) = (acc + x) # cumsum_from (acc + x) xs"

definition cumsum :: "nat list \<Rightarrow> nat list" where
  "cumsum xs = cumsum_from 0 xs"

text \<open>
  \<open>dof_ind\<close>: the dictionary lookup raises \<open>KeyError\<close> with the missing key, reading
  \<open>dof_start\<close> past its end raises \<open>IndexError\<close>, and \<open>np.arange(a, b)\<close> is \<open>[a..<b]\<close>.
\<close>

definition dof_ind :: "dof_manager \<Rightarrow> grid_like \<Rightarrow> string \<Rightarrow> error + nat list" where
  "dof_ind dm g name =
     (case map_of (block_dof dm) (g, name) of
        None \<Rightarrow> Inl (KeyError (BlockKey g name))
      | Some block_ind \<Rightarrow>
          (let dof_start = 0 # cumsum (full_dof dm) in
           if block_ind + 1 < length dof_start
           then Inr [dof_start ! block_ind ..< dof_start ! (block_ind + 1)]
           else Inl IndexError))"

section \<open>Sparse matrices of scipy\<close>

text \<open>
  \<open>sps.coo_matrix((data, (row, col)), shape=(nr, nc))\<close>: the three arrays have one
  length, an index outside the shape raises \<open>ValueError\<close>, and the entries given for
  one position are added.
\<close>

definition coo_matrix ::
  "real list \<Rightarrow> nat list \<Rightarrow> nat list \<Rightarrow> nat \<times> nat \<Rightarrow> error + matrix" where
  "coo_matrix dat row col shape =
     (case shape of (nr, nc) \<Rightarrow>
        if length dat = length row \<and> length row = length col
           \<and> list_all (\<lambda>i. i < nr) row \<and> list_all (\<lambda>j. j < nc) col
        then Inr (Matrix nc
               (map (\<lambda>i. map (\<lambda>j. sum_list (map fst
                        (filter (\<lambda>(d, r, c). r = i \<and> c = j) (zip dat (zip row col)))))
                      [0..<nc])
                 [0..<nr]))
        else Inl ValueError)"

text \<open>The product \<open>a * b\<close> of two sparse matrices; shapes that do not fit raise.\<close>

definition matmul :: "matrix \<Rightarrow> matrix \<Rightarrow> error + matrix" where
  "matmul a b =
     (if ncols a \<noteq> nrows b then Inl ValueError
      else Inr (Matrix (ncols b)
             (map (\<lambda>r. map (\<lambda>j. sum_list (map (\<lambda>k. r ! k * (mrows b ! k) ! j) [0..<ncols a]))
                          [0..<ncols b])
                  (mrows a))))"

text \<open>
  \<open>sps.bmat([[m] for m in mat])\<close>: one column of blocks, stacked. No block at all
  raises \<open>ValueError\<close> (the block array is not two-dimensional), and so do blocks of
  different widths.
\<close>

definition bmat_column :: "matrix list \<Rightarrow> error + matrix" where
  "bmat_column mat =
     (case mat of
        [] \<Rightarrow> Inl ValueError
      | m # rest \<Rightarrow>
          if list_all (\<lambda>m'. ncols m' = ncols m) rest
          then Inr (Matrix (ncols m) (concat (map mrows mat)))
          else Inl ValueError)"

text \<open>\<open>np.hstack\<close> of a list of arrays; the empty list raises \<open>ValueError\<close>.\<close>

definition hstack :: "'a list list \<Rightarrow> error + 'a list" where
  "hstack arrays = (if arrays = [] then Inl ValueError else Inr (concat arrays))"

section \<open>Operator trees\<close>

text \<open>
  Modelled from the spec: the operator classes (module \<open>operators\<close>, \<open>pp.ad\<close>) are not
  among the source files; they are given the fields that the code under study reads.
  A variable has an identity (\<open>var_obj\<close>, the Python object), an \<open>id\<close>, the grid or
  edge it lives on and its name. A merged variable is an ordered list \<open>sub_vars\<close> of
  variables, with a first one, and its \<open>id\<close> is the id of its first sub-variable. A
  variable is not a collection. A discretization object has a \<open>keyword\<close> and attributes
  named \<open>\<dots>_matrix_key\<close>, kept here as a list of prefix and value.
\<close>

datatype variable =
  Variable (var_obj: nat) (var_id: int) (var_g: grid_like) (var_name: string)

record discr =
  keyword :: string
  matrix_keys :: "(string \<times> string) list"

datatype operation = Void | Add | Sub | Mul | Div | Evaluate

text \<open>
  The classes of operators that \<open>_parse_operator\<close> tells apart, in the fields it
  reads. \<open>MergedVariableOp obj sv rest\<close> is the merged variable with the sub-variables
  \<open>sv # rest\<close>. \<open>Operator tag children\<close> is an operator of no special class, with the
  operation and the children of its tree; every other class has a tree with no
  children. \<open>Void\<close> stands for an operation that is none of the five the code knows.
\<close>

datatype operator =
    VariableOp variable
  | MergedVariableOp nat variable "variable list"
  | BoundaryCondition string "grid list"
  | MatrixOp matrix
  | ArrayOp "real list"
  | FunctionOp nat
  | ScalarOp real
  | Divergence bool "grid list"
  | MergedOperator nat "(grid_like \<times> discr) list" string "string option"
  | Operator operation "operator list"

text \<open>
  What an operator evaluates to: a forward-mode AD array with its value and Jacobian,
  a matrix, an array, a scalar, or a function object.
\<close>

datatype ad_value =
    AdArray (val: "real list") (jac: matrix)
  | MatV matrix
  | ArrV "real list"
  | ScalV real
  | FuncV nat

text \<open>
  The code outside these files that the evaluation calls, taken as parameters: the
  seeding \<open>initAdArrays\<close>, the arithmetic \<open>+ - * /\<close> of the values, the call
  \<open>f.func(args)\<close> of a function object, the divergence matrices of \<open>pp.fvutils\<close> and
  \<open>sps.block_diag\<close>.
\<close>

record ext =
  initAdArrays :: "real list list \<Rightarrow> ad_value list"
  v_add :: "ad_value \<Rightarrow> ad_value \<Rightarrow> error + ad_value"
  v_sub :: "ad_value \<Rightarrow> ad_value \<Rightarrow> error + ad_value"
  v_mul :: "ad_value \<Rightarrow> ad_value \<Rightarrow> error + ad_value"
  v_div :: "ad_value \<Rightarrow> ad_value \<Rightarrow> error + ad_value"
  v_func :: "nat \<Rightarrow> ad_value list \<Rightarrow> error + ad_value"
  scalar_divergence :: "grid \<Rightarrow> matrix"
  vector_divergence :: "grid \<Rightarrow> matrix"
  block_diag :: "matrix list \<Rightarrow> error + matrix"

section \<open>Equations\<close>

text \<open>
  The fields of an \<open>Equation\<close> object. \<open>ad\<close> is the attribute \<open>_ad\<close>, which does not
  exist before the first \<open>to_ad\<close>. \<open>stored_matrices\<close> is keyed by the operator object.
\<close>

record equation =
  eq_operator :: operator
  eq_name :: "string option"
  variable_dofs :: "nat list list"
  variable_ids :: "int list"
  stored_matrices :: "operator \<rightharpoonup> matrix"
  ad :: "(int \<rightharpoonup> ad_value) option"

definition is_variable :: "operator \<Rightarrow> bool" where
  "is_variable op =
     (case op of VariableOp v \<Rightarrow> True | MergedVariableOp obj sv rest \<Rightarrow> True | _ \<Rightarrow> False)"

text \<open>
  The attribute \<open>id\<close> of a variable or merged variable; that of a merged variable is
  the id of its first sub-variable.
\<close>

definition op_id :: "operator \<Rightarrow> int" where
  "op_id op =
     (case op of VariableOp v \<Rightarrow> var_id v | MergedVariableOp obj sv rest \<Rightarrow> var_id sv | _ \<Rightarrow> 0)"

text \<open>
  \<open>_find_subtree_variables\<close> returns the operator itself at a variable, and a list
  otherwise.
\<close>

datatype found = One operator | Many "operator list"

fun find_subtree_variables :: "operator \<Rightarrow> found" where
  "find_subtree_variables (VariableOp v) = One (VariableOp v)"
| "find_subtree_variables (MergedVariableOp obj sv rest) = One (MergedVariableOp obj sv rest)"
| "find_subtree_variables (Operator tag children) =
     Many (concat (map (\<lambda>child.
        (case find_subtree_variables child of
           One var \<Rightarrow> [var]
         | Many vars \<Rightarrow> filter is_variable vars)) children))"
| "find_subtree_variables op = Many []"

text \<open>
  The global indices of one variable in \<open>_identify_variables\<close>: the \<open>dof_ind\<close> of the
  variable, or of each sub-variable of a merged variable, stacked.
\<close>

fun sub_var_inds :: "dof_manager \<Rightarrow> variable list \<Rightarrow> error + nat list list" where
  "sub_var_inds dm [] = Inr []"
| "sub_var_inds dm (sub_var # rest) =
     (case dof_ind dm (var_g sub_var) (var_name sub_var) of
        Inl e \<Rightarrow> Inl e
      | Inr ind \<Rightarrow> (case sub_var_inds dm rest of Inl e \<Rightarrow> Inl e | Inr inds \<Rightarrow> Inr (ind # inds)))"

definition variable_inds :: "dof_manager \<Rightarrow> operator \<Rightarrow> error + nat list \<times> int list" where
  "variable_inds dm variable =
     (case variable of
        MergedVariableOp obj sv rest \<Rightarrow>
          (case sub_var_inds dm (sv # rest) of
             Inl e \<Rightarrow> Inl e
           | Inr ind_var \<Rightarrow>
               (case hstack ind_var of
                  Inl e \<Rightarrow> Inl e
                | Inr ind \<Rightarrow> Inr (ind, [var_id sv])))
      | VariableOp v \<Rightarrow>
          (case dof_ind dm (var_g v) (var_name v) of
             Inl e \<Rightarrow> Inl e
           | Inr ind \<Rightarrow> Inr (ind, [var_id v]))
      | _ \<Rightarrow> Inl AttributeError)"

fun variables_loop ::
  "dof_manager \<Rightarrow> operator list \<Rightarrow> nat list list \<times> int list \<Rightarrow> error + nat list list \<times> int list" where
  "variables_loop dm [] acc = Inr acc"
| "variables_loop dm (variable # rest) (inds, ids) =
     (case variable_inds dm variable of
        Inl e \<Rightarrow> Inl e
      | Inr (ind, new_ids) \<Rightarrow> variables_loop dm rest (inds @ [ind], ids @ new_ids))"

text \<open>
  \<open>_identify_variables\<close>. \<open>set_list\<close> is \<open>list(set(\<dots>))\<close>: which variables a set takes
  for equal is the business of their class, and the order of its elements Python leaves
  open, so it is a parameter. \<open>set(\<dots>)\<close> of a single variable, which is not a
  collection, raises \<open>TypeError\<close>. \<open>sorted\<close> is stable, as \<open>sort_key\<close> is.
\<close>

definition identify_variables ::
  "(operator list \<Rightarrow> operator list) \<Rightarrow> dof_manager \<Rightarrow> operator \<Rightarrow> error + nat list list \<times> int list" where
  "identify_variables set_list dm operator =
     (case find_subtree_variables operator of
        One var \<Rightarrow> Inl TypeError
      | Many vars \<Rightarrow> variables_loop dm (sort_key op_id (set_list vars)) ([], []))"

definition Equation_init ::
  "(operator list \<Rightarrow> operator list) \<Rightarrow> operator \<Rightarrow> dof_manager \<Rightarrow> string option \<Rightarrow> error + equation" where
  "Equation_init set_list operator dm name =
     (case identify_variables set_list dm operator of
        Inl e \<Rightarrow> Inl e
      | Inr (vdofs, vids) \<Rightarrow>
          Inr \<lparr>eq_operator = operator, eq_name = name, variable_dofs = vdofs,
               variable_ids = vids, stored_matrices = Map.empty, ad = None\<rparr>)"

definition local_dofs :: "equation \<Rightarrow> error + nat list" where
  "local_dofs eq = hstack (variable_dofs eq)"

section \<open>Evaluation of an operator tree\<close>

text \<open>\<open>gb.node_props(g)\<close> and \<open>gb.edge_props(e)\<close>; a grid or edge not in the bucket raises.\<close>

definition node_props :: "grid_bucket \<Rightarrow> grid \<Rightarrow> error + data" where
  "node_props gb g =
     (case map_of (gb_nodes gb) g of
        None \<Rightarrow> Inl (KeyError (GridKey (Node g)))
      | Some d \<Rightarrow> Inr d)"

definition edge_props :: "grid_bucket \<Rightarrow> grid \<times> grid \<Rightarrow> error + data" where
  "edge_props gb e =
     (case map_of (gb_edges gb) e of
        None \<Rightarrow> Inl (KeyError (GridKey (Edge (fst e) (snd e))))
      | Some (mg, d) \<Rightarrow> Inr d)"

text \<open>The loop of the boundary condition branch over \<open>op.g\<close>.\<close>

fun bc_values_loop :: "grid_bucket \<Rightarrow> string \<Rightarrow> grid list \<Rightarrow> error + real list list" where
  "bc_values_loop gb kw [] = Inr []"
| "bc_values_loop gb kw (g # rest) =
     (case node_props gb g of
        Inl e \<Rightarrow> Inl e
      | Inr d \<Rightarrow>
          (case parameters d kw of
             None \<Rightarrow> Inl (KeyError (StrKey kw))
           | Some p \<Rightarrow>
               (case p ''bc_values'' of
                  None \<Rightarrow> Inl (KeyError (StrKey ''bc_values''))
                | Some v \<Rightarrow>
                    (case bc_values_loop gb kw rest of
                       Inl e \<Rightarrow> Inl e
                     | Inr vs \<Rightarrow> Inr (v # vs)))))"

text \<open>
  The loop of the merged operator branch over \<open>op.grid_discr.items()\<close>:
  \<open>getattr(discr, key + "_matrix_key")\<close> raises \<open>AttributeError\<close> when the
  discretization has no such attribute.
\<close>

fun merged_matrices_loop ::
  "grid_bucket \<Rightarrow> string \<Rightarrow> string option \<Rightarrow> (grid_like \<times> discr) list \<Rightarrow> error + matrix list" where
  "merged_matrices_loop gb key mdk [] = Inr []"
| "merged_matrices_loop gb key mdk ((g, discr) # rest) =
     (case (case g of Node gr \<Rightarrow> node_props gb gr | Edge g1 g2 \<Rightarrow> edge_props gb (g1, g2)) of
        Inl e \<Rightarrow> Inl e
      | Inr d \<Rightarrow>
          (let mat_dict_key = (case mdk of Some k \<Rightarrow> k | None \<Rightarrow> keyword discr) in
           case discretization_matrices d mat_dict_key of
             None \<Rightarrow> Inl (KeyError (StrKey mat_dict_key))
           | Some mat_dict \<Rightarrow>
               (case map_of (matrix_keys discr) key of
                  None \<Rightarrow> Inl AttributeError
                | Some mat_key \<Rightarrow>
                    (case mat_dict mat_key of
                       None \<Rightarrow> Inl (KeyError (StrKey mat_key))
                     | Some m \<Rightarrow>
                         (case merged_matrices_loop gb key mdk rest of
                            Inl e \<Rightarrow> Inl e
                          | Inr ms \<Rightarrow> Inr (m # ms))))))"

text \<open>
  The last part of \<open>_parse_operator\<close>, on the results of the children, in the order
  of its \<open>elif\<close> chain. Addition and subtraction assert two results; the others read
  \<open>results[0]\<close> and \<open>results[1]\<close>, or \<open>results[0].func\<close>, with no such assertion.
\<close>

definition combine :: "ext \<Rightarrow> operation \<Rightarrow> ad_value list \<Rightarrow> error + ad_value" where
  "combine x tag results =
     (if tag = Add then
        (if length results = 2 then v_add x (results ! 0) (results ! 1) else Inl AssertionError)
      else if tag = Sub then
        (if length results = 2 then v_sub x (results ! 0) (results ! 1) else Inl AssertionError)
      else if tag = Mul then
        (if 2 \<le> length results then v_mul x (results ! 0) (results ! 1) else Inl IndexError)
      else if tag = Evaluate then
        (case results of
           [] \<Rightarrow> Inl IndexError
         | f # args \<Rightarrow> (case f of FuncV fn \<Rightarrow> v_func x fn args | _ \<Rightarrow> Inl AttributeError))
      else if tag = Div then
        (if 2 \<le> length results then v_div x (results ! 0) (results ! 1) else Inl IndexError)
      else Inl ValueError)"

text \<open>
  \<open>_parse_operator\<close>, with the dictionary \<open>_ad\<close> of the equation read and its
  dictionary \<open>_stored_matrices\<close> passed along and returned, also when an exception
  ends the evaluation. \<open>parse_children\<close> is the list comprehension over the children.
\<close>

fun parse_operator ::
  "ext \<Rightarrow> grid_bucket \<Rightarrow> (int \<rightharpoonup> ad_value) \<Rightarrow> operator \<Rightarrow> (operator \<rightharpoonup> matrix)
     \<Rightarrow> (error + ad_value) \<times> (operator \<rightharpoonup> matrix)"
and parse_children ::
  "ext \<Rightarrow> grid_bucket \<Rightarrow> (int \<rightharpoonup> ad_value) \<Rightarrow> operator list \<Rightarrow> (operator \<rightharpoonup> matrix)
     \<Rightarrow> (error + ad_value list) \<times> (operator \<rightharpoonup> matrix)" where
  "parse_operator x gb ads (VariableOp v) c =
     ((case ads (var_id v) of None \<Rightarrow> Inl (KeyError (IdKey (var_id v))) | Some a \<Rightarrow> Inr a), c)"
| "parse_operator x gb ads (MergedVariableOp obj sv rest) c =
     ((case ads (var_id sv) of None \<Rightarrow> Inl (KeyError (IdKey (var_id sv))) | Some a \<Rightarrow> Inr a), c)"
| "parse_operator x gb ads (BoundaryCondition kw gs) c =
     ((case bc_values_loop gb kw gs of
         Inl e \<Rightarrow> Inl e
       | Inr vals \<Rightarrow> (case hstack vals of Inl e \<Rightarrow> Inl e | Inr v \<Rightarrow> Inr (ArrV v))), c)"
| "parse_operator x gb ads (MatrixOp m) c = (Inr (MatV m), c)"
| "parse_operator x gb ads (ArrayOp vs) c = (Inr (ArrV vs), c)"
| "parse_operator x gb ads (FunctionOp f) c = (Inr (FuncV f), c)"
| "parse_operator x gb ads (ScalarOp r) c = (Inr (ScalV r), c)"
| "parse_operator x gb ads (Divergence scalar gs) c =
     ((case block_diag x (if scalar then map (scalar_divergence x) gs
                          else map (vector_divergence x) gs) of
         Inl e \<Rightarrow> Inl e
       | Inr matrix \<Rightarrow> Inr (MatV matrix)), c)"
| "parse_operator x gb ads (MergedOperator obj grid_discr key mdk) c =
     (case c (MergedOperator obj grid_discr key mdk) of
        Some matrix \<Rightarrow> (Inr (MatV matrix), c)
      | None \<Rightarrow>
          (case merged_matrices_loop gb key mdk grid_discr of
             Inl e \<Rightarrow> (Inl e, c)
           | Inr mat \<Rightarrow>
               (case block_diag x mat of
                  Inl e \<Rightarrow> (Inl e, c)
                | Inr matrix \<Rightarrow>
                    (Inr (MatV matrix), c(MergedOperator obj grid_discr key mdk \<mapsto> matrix)))))"
| "parse_operator x gb ads (Operator tag children) c =
     (if children = [] then (Inl AssertionError, c)
      else (case parse_children x gb ads children c of
              (Inl e, c') \<Rightarrow> (Inl e, c')
            | (Inr results, c') \<Rightarrow> (combine x tag results, c')))"
| "parse_children x gb ads [] c = (Inr [], c)"
| "parse_children x gb ads (child # rest) c =
     (case parse_operator x gb ads child c of
        (Inl e, c') \<Rightarrow> (Inl e, c')
      | (Inr r, c') \<Rightarrow>
          (case parse_children x gb ads rest c' of
             (Inl e, c'') \<Rightarrow> (Inl e, c'')
           | (Inr rs, c'') \<Rightarrow> (Inr (r # rs), c'')))"

text \<open>
  \<open>state[ind]\<close> for an index array, and the list comprehension over
  \<open>_variable_dofs\<close>; an index past the end of the state raises \<open>IndexError\<close>.
\<close>

definition state_index :: "real list \<Rightarrow> nat list \<Rightarrow> error + real list" where
  "state_index state ind =
     (if list_all (\<lambda>i. i < length state) ind then Inr (map (\<lambda>i. state ! i) ind)
      else Inl IndexError)"

fun state_slices :: "real list \<Rightarrow> nat list list \<Rightarrow> error + real list list" where
  "state_slices state [] = Inr []"
| "state_slices state (ind # rest) =
     (case state_index state ind of
        Inl e \<Rightarrow> Inl e
      | Inr v \<Rightarrow> (case state_slices state rest of Inl e \<Rightarrow> Inl e | Inr vs \<Rightarrow> Inr (v # vs)))"

text \<open>A dictionary comprehension over pairs: a later pair replaces an earlier one.\<close>

definition dict_of_pairs :: "('k \<times> 'v) list \<Rightarrow> ('k \<rightharpoonup> 'v)" where
  "dict_of_pairs kvs = fold (\<lambda>kv m. m(fst kv \<mapsto> snd kv)) kvs Map.empty"

text \<open>
  Modelled from the spec: \<open>pp.Assembler\<close> is not among the source files. Of an
  assembler the code reads the grid bucket \<open>gb\<close> it was built from and the layout
  \<open>full_dof\<close> of the DofManager; the constructor of an equation calls its \<open>dof_ind\<close>,
  and is given the layout itself here.
\<close>

record assembler =
  asm_gb :: grid_bucket
  asm_dof :: dof_manager

definition Assembler_init :: "grid_bucket \<Rightarrow> assembler" where
  "Assembler_init gb = \<lparr>asm_gb = gb, asm_dof = DofManager_init gb\<rparr>"

text \<open>
  \<open>to_ad\<close> returns the value and the equation object as the call leaves it: \<open>_ad\<close>
  assigned, \<open>_stored_matrices\<close> as the evaluation left it. The parameter \<open>gb\<close> is not
  read; the bucket is the assembler's.
\<close>

definition to_ad ::
  "ext \<Rightarrow> assembler \<Rightarrow> grid_bucket \<Rightarrow> real list \<Rightarrow> equation \<Rightarrow> (error + ad_value) \<times> equation" where
  "to_ad x asm gb state eq =
     (case state_slices state (variable_dofs eq) of
        Inl e \<Rightarrow> (Inl e, eq)
      | Inr slices \<Rightarrow>
          (let ad_vars = initAdArrays x slices;
               new_ad = dict_of_pairs (zip (variable_ids eq) ad_vars)
           in case parse_operator x (asm_gb asm) new_ad (eq_operator eq) (stored_matrices eq) of
                (r, c) \<Rightarrow> (r, eq\<lparr>ad := Some new_ad, stored_matrices := c\<rparr>)))"

section \<open>The equation manager\<close>

record equation_manager =
  em_gb :: grid_bucket
  equations :: "equation list"
  em_assembler :: assembler

text \<open>The scatter matrix of \<open>assemble_matrix_rhs\<close> for the index array \<open>local_dofs\<close>.\<close>

definition projection_of :: "nat list \<Rightarrow> nat \<Rightarrow> error + matrix" where
  "projection_of ldofs num_global_dofs =
     (let num_local_dofs = length ldofs in
      coo_matrix (replicate num_local_dofs 1) [0..<num_local_dofs] ldofs
        (num_local_dofs, num_global_dofs))"

text \<open>
  The body of the loop of \<open>assemble_matrix_rhs\<close> for one equation: the block appended
  to \<open>mat\<close>, the vector appended to \<open>b\<close>, and the equation as the call leaves it.
  \<open>ad.jac\<close> of a value that is not an AD array raises \<open>AttributeError\<close>.
\<close>

definition assemble_equation ::
  "ext \<Rightarrow> equation_manager \<Rightarrow> nat \<Rightarrow> real list \<Rightarrow> equation
     \<Rightarrow> (error + matrix \<times> real list) \<times> equation" where
  "assemble_equation x em num_global_dofs state eq =
     (case to_ad x (em_assembler em) (em_gb em) state eq of
        (Inl e, eq') \<Rightarrow> (Inl e, eq')
      | (Inr a, eq') \<Rightarrow>
          (case local_dofs eq' of
             Inl e \<Rightarrow> (Inl e, eq')
           | Inr ldofs \<Rightarrow>
               (case projection_of ldofs num_global_dofs of
                  Inl e \<Rightarrow> (Inl e, eq')
                | Inr projection \<Rightarrow>
                    (case a of
                       AdArray v j \<Rightarrow>
                         (case matmul j projection of
                            Inl e \<Rightarrow> (Inl e, eq')
                          | Inr m \<Rightarrow> (Inr (m, map uminus v), eq'))
                     | _ \<Rightarrow> (Inl AttributeError, eq')))))"

fun assemble_loop ::
  "ext \<Rightarrow> equation_manager \<Rightarrow> nat \<Rightarrow> real list \<Rightarrow> equation list
     \<Rightarrow> matrix list \<times> real list list
     \<Rightarrow> (error + matrix list \<times> real list list) \<times> equation list" where
  "assemble_loop x em n state [] acc = (Inr acc, [])"
| "assemble_loop x em n state (eq # rest) (mat, b) =
     (case assemble_equation x em n state eq of
        (Inl e, eq') \<Rightarrow> (Inl e, eq' # rest)
      | (Inr (m, v), eq') \<Rightarrow>
          (case assemble_loop x em n state rest (mat @ [m], b @ [v]) of
             (r, rest') \<Rightarrow> (r, eq' # rest')))"

text \<open>
  \<open>assemble_matrix_rhs\<close> returns \<open>(A, rhs)\<close> or the exception, and the manager with
  its equations as the call leaves them.
\<close>

definition assemble_matrix_rhs ::
  "ext \<Rightarrow> equation_manager \<Rightarrow> real list \<Rightarrow> (error + matrix \<times> real list) \<times> equation_manager" where
  "assemble_matrix_rhs x em state =
     (let num_global_dofs = sum_list (full_dof (asm_dof (em_assembler em))) in
      case assemble_loop x em num_global_dofs state (equations em) ([], []) of
        (Inl e, eqs) \<Rightarrow> (Inl e, em\<lparr>equations := eqs\<rparr>)
      | (Inr (mat, b), eqs) \<Rightarrow>
          (case bmat_column mat of
             Inl e \<Rightarrow> (Inl e, em\<lparr>equations := eqs\<rparr>)
           | Inr A \<Rightarrow>
               (case hstack b of
                  Inl e \<Rightarrow> (Inl e, em\<lparr>equations := eqs\<rparr>)
                | Inr rhs \<Rightarrow> (Inr (A, rhs), em\<lparr>equations := eqs\<rparr>))))"

section \<open>Notions used in the statements about the layout\<close>

text \<open>
  The size that a block is to have: cells, faces and nodes times their numbers of dofs,
  a kind that the variable does not name counting as zero.
\<close>

definition spec_block_size :: "nat \<Rightarrow> nat \<Rightarrow> nat \<Rightarrow> (string \<rightharpoonup> nat) \<Rightarrow> nat" where
  "spec_block_size cells faces nodes counts =
     cells * (case counts ''cells'' of None \<Rightarrow> 0 | Some c \<Rightarrow> c)
     + faces * (case counts ''faces'' of None \<Rightarrow> 0 | Some c \<Rightarrow> c)
     + nodes * (case counts ''nodes'' of None \<Rightarrow> 0 | Some c \<Rightarrow> c)"

text \<open>
  The declared pairs of a grid bucket with their sizes, in declaration order: the
  variables of each node that has primary variables, then those of each such edge.
  An interface has the cells of its mortar grid, and no faces or nodes.
\<close>

definition node_entries :: "(grid \<times> data) list \<Rightarrow> ((grid_like \<times> string) \<times> nat) list" where
  "node_entries ns =
     concat (map (\<lambda>(g, d). case primary_variables d of
                    None \<Rightarrow> []
                  | Some pv \<Rightarrow> map (\<lambda>(name, counts).
                      ((Node g, name),
                       spec_block_size (num_cells g) (num_faces g) (num_nodes g) counts)) pv) ns)"

definition edge_entries ::
  "((grid \<times> grid) \<times> mortar_grid \<times> data) list \<Rightarrow> ((grid_like \<times> string) \<times> nat) list" where
  "edge_entries es =
     concat (map (\<lambda>(e, mg, d). case primary_variables d of
                    None \<Rightarrow> []
                  | Some pv \<Rightarrow> map (\<lambda>(name, counts).
                      ((Edge (fst e) (snd e), name),
                       spec_block_size (mg_num_cells mg) 0 0 counts)) pv) es)"

definition declared_blocks :: "grid_bucket \<Rightarrow> ((grid_like \<times> string) \<times> nat) list" where
  "declared_blocks gb = node_entries (gb_nodes gb) @ edge_entries (gb_edges gb)"

text \<open>The loops of the constructor, as one pass over a list of pairs with their sizes.\<close>

fun add_blocks :: "((grid_like \<times> string) \<times> nat) list \<Rightarrow> dof_state \<Rightarrow> dof_state" where
  "add_blocks [] s = s"
| "add_blocks ((k, sz) # rest) (c, bd, fd) =
     add_blocks rest (c + 1, AList.update k c bd, fd @ [sz])"

text \<open>The range of block \<open>b\<close>: from the sum of the sizes before it to that sum and its own size.\<close>

definition block_range :: "nat list \<Rightarrow> nat \<Rightarrow> nat list" where
  "block_range fd b = [sum_list (take b fd)..<sum_list (take (b + 1) fd)]"

section \<open>A small grid bucket\<close>

text \<open>
  Two grids with variables, one grid with none, and one interface. The sizes of the
  four blocks are 2, 7, 2 and 3.
\<close>

definition ex_g1 :: grid where "ex_g1 = Grid 1 2 3 4"

definition ex_g2 :: grid where "ex_g2 = Grid 2 1 2 2"

definition ex_g3 :: grid where "ex_g3 = Grid 3 1 1 1"

definition ex_data :: "(string \<times> (string \<rightharpoonup> nat)) list option \<Rightarrow> data" where
  "ex_data pv = \<lparr>primary_variables = pv, parameters = Map.empty,
                 discretization_matrices = Map.empty\<rparr>"

definition ex_gb :: grid_bucket where
  "ex_gb =
     \<lparr>gb_nodes =
        [(ex_g1, ex_data (Some [(''p'', [''cells'' \<mapsto> 1]),
                               (''u'', [''faces'' \<mapsto> 1, ''nodes'' \<mapsto> 1])])),
         (ex_g3, ex_data None),
         (ex_g2, ex_data (Some [(''p'', [''cells'' \<mapsto> 2])]))],
      gb_edges =
        [((ex_g1, ex_g2), MortarGrid 3,
          ex_data (Some [(''lam'', [''cells'' \<mapsto> 1, ''faces'' \<mapsto> 5])]))]\<rparr>"

section \<open>Notions used in the statements about equations\<close>

text \<open>
  The matrix that the merged operator branch computes for an operator and stores, when
  it computes one.
\<close>

definition fresh_matrix :: "ext \<Rightarrow> grid_bucket \<Rightarrow> operator \<Rightarrow> matrix option" where
  "fresh_matrix x gb op =
     (case op of
        MergedOperator obj grid_discr key mdk \<Rightarrow>
          (case merged_matrices_loop gb key mdk grid_discr of
             Inl e \<Rightarrow> None
           | Inr mat \<Rightarrow> (case block_diag x mat of Inl e \<Rightarrow> None | Inr matrix \<Rightarrow> Some matrix))
      | _ \<Rightarrow> None)"

text \<open>
  A store of matrices \<open>c'\<close> extends a store \<open>c\<close> when every operator has in \<open>c'\<close> what
  it has in \<open>c\<close>, or has nothing in \<open>c\<close> and in \<open>c'\<close> the matrix the evaluation computes.
\<close>

definition cache_ext ::
  "ext \<Rightarrow> grid_bucket \<Rightarrow> (operator \<rightharpoonup> matrix) \<Rightarrow> (operator \<rightharpoonup> matrix) \<Rightarrow> bool" where
  "cache_ext x gb c c' = (\<forall>op. c' op = c op \<or> (c op = None \<and> c' op = fresh_matrix x gb op))"

text \<open>
  The number of equations that the loop of \<open>assemble_matrix_rhs\<close> evaluates: all of
  them, or those up to and including the first that raises.
\<close>

fun evaluated ::
  "ext \<Rightarrow> equation_manager \<Rightarrow> nat \<Rightarrow> real list \<Rightarrow> equation list \<Rightarrow> nat" where
  "evaluated x em n state [] = 0"
| "evaluated x em n state (eq # rest) =
     (case fst (assemble_equation x em n state eq) of
        Inl e \<Rightarrow> 1
      | Inr r \<Rightarrow> 1 + evaluated x em n state rest)"

section \<open>An instance of the outside code, and a small problem\<close>

text \<open>
  An instance of the parameters, for evaluating the model on examples: AD arrays
  seeded with identity blocks, sums of AD arrays and of scalars, products of scalars and
  of a matrix with an AD array, and block diagonal matrices.
\<close>

definition ex_initAdArrays :: "real list list \<Rightarrow> ad_value list" where
  "ex_initAdArrays vs =
     map (\<lambda>i. AdArray (vs ! i)
            (Matrix (sum_list (map length vs))
               (map (\<lambda>r. map (\<lambda>c. if c = sum_list (map length (take i vs)) + r then 1 else 0)
                             [0..<sum_list (map length vs)])
                    [0..<length (vs ! i)])))
         [0..<length vs]"

definition mat_add :: "matrix \<Rightarrow> matrix \<Rightarrow> matrix" where
  "mat_add a b = Matrix (ncols a) (map2 (map2 (+)) (mrows a) (mrows b))"

definition mat_vec :: "matrix \<Rightarrow> real list \<Rightarrow> real list" where
  "mat_vec a v = map (\<lambda>r. sum_list (map2 (*) r v)) (mrows a)"

fun ex_add :: "ad_value \<Rightarrow> ad_value \<Rightarrow> error + ad_value" where
  "ex_add (AdArray v1 j1) (AdArray v2 j2) = Inr (AdArray (map2 (+) v1 v2) (mat_add j1 j2))"
| "ex_add (ScalV a) (ScalV b) = Inr (ScalV (a + b))"
| "ex_add a b = Inl TypeError"

fun ex_mul :: "ad_value \<Rightarrow> ad_value \<Rightarrow> error + ad_value" where
  "ex_mul (ScalV a) (ScalV b) = Inr (ScalV (a * b))"
| "ex_mul (MatV m) (AdArray v j) =
     (case matmul m j of Inl e \<Rightarrow> Inl e | Inr mj \<Rightarrow> Inr (AdArray (mat_vec m v) mj))"
| "ex_mul a b = Inl TypeError"

definition ex_block_diag :: "matrix list \<Rightarrow> error + matrix" where
  "ex_block_diag ms =
     Inr (Matrix (sum_list (map ncols ms))
            (concat (map (\<lambda>i. map (\<lambda>r. replicate (sum_list (map ncols (take i ms))) 0 @ r
                                      @ replicate (sum_list (map ncols (drop (i + 1) ms))) 0)
                                (mrows (ms ! i)))
                         [0..<length ms])))"

definition ex_ext :: ext where
  "ex_ext =
     \<lparr>initAdArrays = ex_initAdArrays, v_add = ex_add, v_sub = (\<lambda>a b. Inl TypeError),
      v_mul = ex_mul, v_div = (\<lambda>a b. Inl TypeError), v_func = (\<lambda>f args. Inl TypeError),
      scalar_divergence = (\<lambda>g. Matrix 0 []), vector_divergence = (\<lambda>g. Matrix 0 []),
      block_diag = ex_block_diag\<rparr>"

text \<open>
  One grid of two cells with the cell variables \<open>q\<close> and \<open>p\<close>, so four dofs, \<open>p\<close> in the
  second block; a flux matrix in the grid's discretization matrices.
\<close>

definition sm_g :: grid where "sm_g = Grid 7 2 0 0"

definition sm_gb :: grid_bucket where
  "sm_gb =
     \<lparr>gb_nodes =
        [(sm_g, \<lparr>primary_variables = Some [(''q'', [''cells'' \<mapsto> 1]), (''p'', [''cells'' \<mapsto> 1])],
                 parameters = Map.empty,
                 discretization_matrices =
                   [''flow'' \<mapsto> [''flux'' \<mapsto> Matrix 2 [[1, 2], [3, 4]]]]\<rparr>)],
      gb_edges = []\<rparr>"

definition sm_p :: operator where
  "sm_p = VariableOp (Variable 10 0 (Node sm_g) ''p'')"

definition sm_flux :: operator where
  "sm_flux =
     MergedOperator 100 [(Node sm_g, \<lparr>keyword = ''flow'', matrix_keys = [(''flux'', ''flux'')]\<rparr>)]
       ''flux'' None"

text \<open>The equations \<open>flux * p\<close> and \<open>p + p\<close>, as their constructor leaves them.\<close>

definition sm_eq_flux :: equation where
  "sm_eq_flux =
     \<lparr>eq_operator = Operator Mul [sm_flux, sm_p], eq_name = None, variable_dofs = [[2, 3]],
      variable_ids = [0], stored_matrices = Map.empty, ad = None\<rparr>"

definition sm_eq_sum :: equation where
  "sm_eq_sum =
     \<lparr>eq_operator = Operator Add [sm_p, sm_p], eq_name = None, variable_dofs = [[2, 3]],
      variable_ids = [0], stored_matrices = Map.empty, ad = None\<rparr>"

definition sm_em :: equation_manager where
  "sm_em = \<lparr>em_gb = sm_gb, equations = [sm_eq_flux, sm_eq_sum],
            em_assembler = Assembler_init sm_gb\<rparr>"

definition sm_state :: "real list" where
  "sm_state = [7, 8, 5, 6]"

text \<open>
  For each of the two equations at \<open>sm_state\<close>: its residual, its local Jacobian and
  the Jacobian over the global columns.
\<close>

definition sm_parts :: "(real list \<times> matrix \<times> matrix) list" where
  "sm_parts = [([17, 39], Matrix 2 [[1, 2], [3, 4]], Matrix 4 [[0, 0, 1, 2], [0, 0, 3, 4]]),
               ([10, 12], Matrix 2 [[2, 0], [0, 2]], Matrix 4 [[0, 0, 2, 0], [0, 0, 0, 2]])]"

section \<open>Notions used in the statements about variables\<close>

text \<open>
  The variables and merged variables at the leaves of a tree, from left to right.
\<close>

fun leaves :: "operator \<Rightarrow> operator list" where
  "leaves (VariableOp v) = [VariableOp v]"
| "leaves (MergedVariableOp obj sv rest) = [MergedVariableOp obj sv rest]"
| "leaves (Operator tag children) = concat (map leaves children)"
| "leaves op = []"

text \<open>The results of a list of calls, or the first exception among them.\<close>

fun collect :: "(error + 'a) list \<Rightarrow> error + 'a list" where
  "collect [] = Inr []"
| "collect (r # rs) =
     (case r of Inl e \<Rightarrow> Inl e
      | Inr a \<Rightarrow> (case collect rs of Inl e \<Rightarrow> Inl e | Inr as \<Rightarrow> Inr (a # as)))"

text \<open>
  In the words of the specification: the global indices of a variable are its
  \<open>dof_ind\<close>, those of a merged variable the \<open>dof_ind\<close> of its sub-variables one after
  the other.
\<close>

definition spec_var_dofs :: "dof_manager \<Rightarrow> operator \<Rightarrow> error + nat list" where
  "spec_var_dofs dm op =
     (case op of
        VariableOp v \<Rightarrow> dof_ind dm (var_g v) (var_name v)
      | MergedVariableOp obj sv rest \<Rightarrow>
          (case collect (map (\<lambda>s. dof_ind dm (var_g s) (var_name s)) (sv # rest)) of
             Inl e \<Rightarrow> Inl e
           | Inr inds \<Rightarrow> Inr (concat inds))
      | _ \<Rightarrow> Inr [])"

text \<open>
  Modelled from the spec: the class of the variables is not among the source files, and
  by the specification a set of variables holds one variable for each id. This is such
  a set, listed in the order of insertion: of the variables of one id the first stays.
\<close>

fun first_by_id_from :: "int list \<Rightarrow> operator list \<Rightarrow> operator list" where
  "first_by_id_from seen [] = []"
| "first_by_id_from seen (v # vs) =
     (if op_id v \<in> set seen then first_by_id_from seen vs
      else v # first_by_id_from (op_id v # seen) vs)"

definition first_by_id :: "operator list \<Rightarrow> operator list" where
  "first_by_id vs = first_by_id_from [] vs"

text \<open>
  Variables on the small grid bucket: \<open>p\<close> on the first and on the second grid, merged
  into one variable, and \<open>u\<close> on the first grid. The tree uses \<open>u\<close> twice, the merged
  variable, and the first sub-variable of the merged variable by itself.
\<close>

definition ex_p1 :: variable where "ex_p1 = Variable 10 0 (Node ex_g1) ''p''"

definition ex_p2 :: variable where "ex_p2 = Variable 11 1 (Node ex_g2) ''p''"

definition ex_u :: variable where "ex_u = Variable 12 5 (Node ex_g1) ''u''"

definition ex_merged :: operator where "ex_merged = MergedVariableOp 20 ex_p1 [ex_p2]"

definition wit_tree :: operator where
  "wit_tree =
     Operator Add [VariableOp ex_u,
                   Operator Mul [ex_merged, Operator Add [VariableOp ex_p1, VariableOp ex_u]]]"

section \<open>The layout built by the constructor\<close>

lemma node_size: "node_total_local_dofs g c = spec_block_size (num_cells g) (num_faces g) (num_nodes g) c"
  by (simp add: node_total_local_dofs_def spec_block_size_def dict_get_def)

lemma edge_size: "edge_total_local_dofs mg c = spec_block_size (mg_num_cells mg) 0 0 c"
  by (simp add: edge_total_local_dofs_def spec_block_size_def dict_get_def)

lemma add_blocks_append: "add_blocks (xs @ ys) s = add_blocks ys (add_blocks xs s)"
  by (induction xs s rule: add_blocks.induct) simp_all

lemma node_variables_loop_eq:
  "node_variables_loop g pv s =
     add_blocks (map (\<lambda>(name, counts).
        ((Node g, name), spec_block_size (num_cells g) (num_faces g) (num_nodes g) counts)) pv) s"
  by (induction g pv s rule: node_variables_loop.induct) (simp_all add: node_size)

lemma edge_variables_loop_eq:
  "edge_variables_loop e mg pv s =
     add_blocks (map (\<lambda>(name, counts).
        ((Edge (fst e) (snd e), name), spec_block_size (mg_num_cells mg) 0 0 counts)) pv) s"
  by (induction e mg pv s rule: edge_variables_loop.induct) (simp_all add: edge_size)

lemma nodes_loop_eq: "nodes_loop ns s = add_blocks (node_entries ns) s"
proof (induction ns s rule: nodes_loop.induct)
  case (1 s)
  then show ?case by (simp add: node_entries_def)
next
  case (2 g d rest s)
  then show ?case
    by (cases "primary_variables d")
       (simp_all add: node_entries_def node_variables_loop_eq add_blocks_append)
qed

lemma edges_loop_eq: "edges_loop es s = add_blocks (edge_entries es) s"
proof (induction es s rule: edges_loop.induct)
  case (1 s)
  then show ?case by (simp add: edge_entries_def)
next
  case (2 e mg d rest s)
  then show ?case
    by (cases "primary_variables d")
       (simp_all add: edge_entries_def edge_variables_loop_eq add_blocks_append)
qed

lemma DofManager_init_eq:
  "DofManager_init gb =
     (case add_blocks (declared_blocks gb) (0, [], []) of
        (c, bd, fd) \<Rightarrow> \<lparr>block_dof = bd, full_dof = fd\<rparr>)"
  by (simp add: DofManager_init_def nodes_loop_eq edges_loop_eq declared_blocks_def
        add_blocks_append)

lemma add_blocks_sizes:
  "add_blocks es (c, bd, fd) = (c', bd', fd') \<Longrightarrow>
     c' = c + length es \<and> fd' = fd @ map snd es"
  by (induction es "(c, bd, fd)" arbitrary: c bd fd rule: add_blocks.induct) auto

lemma update_fresh: "k \<notin> fst ` set al \<Longrightarrow> AList.update k v al = al @ [(k, v)]"
  by (induction al) auto

lemma add_blocks_distinct:
  "add_blocks es (c, bd, fd) = (c', bd', fd') \<Longrightarrow> distinct (map fst es) \<Longrightarrow>
   fst ` set es \<inter> fst ` set bd = {} \<Longrightarrow>
     bd' = bd @ zip (map fst es) [c..<c + length es]"
proof (induction es arbitrary: c bd fd)
  case Nil
  then show ?case by simp
next
  case (Cons x rest)
  obtain k sz where x: "x = (k, sz)" by (cases x)
  have fresh: "k \<notin> fst ` set bd" using Cons.prems(3) by (auto simp: x)
  have u: "AList.update k c bd = bd @ [(k, c)]" by (rule update_fresh[OF fresh])
  have d: "fst ` set rest \<inter> fst ` set (AList.update k c bd) = {}"
    using Cons.prems(2,3) by (auto simp: u x)
  have r: "add_blocks rest (c + 1, AList.update k c bd, fd @ [sz]) = (c', bd', fd')"
    using Cons.prems(1) by (simp add: x)
  have dr: "distinct (map fst rest)" using Cons.prems(2) by simp
  have step: "bd' = AList.update k c bd @ zip (map fst rest) [c + 1..<c + 1 + length rest]"
    by (rule Cons.IH[OF r dr d])
  have up: "[c..<c + length (x # rest)] = c # [c + 1..<c + 1 + length rest]"
    by (simp add: upt_conv_Cons del: upt_Suc)
  show ?case unfolding up step u by (simp add: x)
qed

lemma add_blocks_lookup_bound:
  "add_blocks es (c, bd, fd) = (c', bd', fd') \<Longrightarrow> map_of bd' k = Some b \<Longrightarrow>
     map_of bd k = Some b \<or> (c \<le> b \<and> b < c + length es)"
proof (induction es arbitrary: c bd fd)
  case Nil
  then show ?case by simp
next
  case (Cons x rest)
  obtain k' sz where x: "x = (k', sz)" by (cases x)
  have r: "add_blocks rest (c + 1, AList.update k' c bd, fd @ [sz]) = (c', bd', fd')"
    using Cons.prems(1) by (simp add: x)
  have "map_of (AList.update k' c bd) k = Some b \<or> (c + 1 \<le> b \<and> b < c + 1 + length rest)"
    by (rule Cons.IH[OF r Cons.prems(2)])
  then show ?case by (auto simp: update_conv' split: if_splits)
qed

lemma add_blocks_lookup_dom:
  "add_blocks es (c, bd, fd) = (c', bd', fd') \<Longrightarrow>
     (map_of bd' k = None) = (k \<notin> fst ` set es \<and> map_of bd k = None)"
proof (induction es arbitrary: c bd fd)
  case Nil
  then show ?case by simp
next
  case (Cons x rest)
  obtain k' sz where x: "x = (k', sz)" by (cases x)
  have r: "add_blocks rest (c + 1, AList.update k' c bd, fd @ [sz]) = (c', bd', fd')"
    using Cons.prems(1) by (simp add: x)
  have "(map_of bd' k = None) = (k \<notin> fst ` set rest \<and> map_of (AList.update k' c bd) k = None)"
    by (rule Cons.IH[OF r])
  then show ?case by (auto simp: update_conv' x)
qed

lemma cumsum_from_nth:
  "i < length xs \<Longrightarrow> cumsum_from acc xs ! i = acc + sum_list (take (Suc i) xs)"
proof (induction xs arbitrary: acc i)
  case Nil
  then show ?case by simp
next
  case (Cons x xs)
  then show ?case by (cases i) simp_all
qed

lemma length_cumsum_from: "length (cumsum_from acc xs) = length xs"
  by (induction xs arbitrary: acc) simp_all

lemma dof_start_nth:
  "b \<le> length fd \<Longrightarrow> (0 # cumsum fd) ! b = sum_list (take b fd)"
  by (cases b) (simp_all add: cumsum_def cumsum_from_nth)

lemma ranges_concat:
  "concat (map (\<lambda>b. [sum_list (take b fd)..<sum_list (take (Suc b) fd)]) [0..<length fd])
     = [0..<sum_list fd]"
proof (induction fd rule: rev_induct)
  case Nil
  then show ?case by simp
next
  case (snoc x xs)
  let ?f = "\<lambda>b. [sum_list (take b (xs @ [x]))..<sum_list (take (Suc b) (xs @ [x]))]"
  let ?g = "\<lambda>b. [sum_list (take b xs)..<sum_list (take (Suc b) xs)]"
  have A: "map ?f [0..<length xs] = map ?g [0..<length xs]"
    by (rule map_cong) (auto simp: Suc_le_eq)
  have B: "?f (length xs) = [sum_list xs..<sum_list xs + x]" by simp
  have C: "[0..<length (xs @ [x])] = [0..<length xs] @ [length xs]" by simp
  have "concat (map ?f [0..<length (xs @ [x])]) = concat (map ?f [0..<length xs]) @ ?f (length xs)"
    unfolding C by (simp only: map_append concat_append list.map concat.simps append_Nil2)
  also have "\<dots> = [0..<sum_list xs] @ [sum_list xs..<sum_list xs + x]"
    unfolding A B snoc.IH ..
  also have "\<dots> = [0..<sum_list (xs @ [x])]"
    by (simp add: upt_add_eq_append[of 0 "sum_list xs" x, simplified])
  finally show ?case .
qed

lemma DofManager_init_parts:
  obtains c where
    "add_blocks (declared_blocks gb) (0, [], []) = (c, block_dof (DofManager_init gb), full_dof (DofManager_init gb))"
proof -
  obtain c bd fd where a: "add_blocks (declared_blocks gb) (0, [], []) = (c, bd, fd)"
    by (cases "add_blocks (declared_blocks gb) (0, [], [])")
  have "DofManager_init gb = \<lparr>block_dof = bd, full_dof = fd\<rparr>"
    by (simp add: DofManager_init_eq a)
  then show ?thesis using a that by simp
qed

lemma full_dof_init: "full_dof (DofManager_init gb) = map snd (declared_blocks gb)"
proof -
  obtain c where a: "add_blocks (declared_blocks gb) (0, [], []) = (c, block_dof (DofManager_init gb), full_dof (DofManager_init gb))"
    by (rule DofManager_init_parts)
  show ?thesis using add_blocks_sizes[OF a] by simp
qed

lemma block_dof_init_distinct:
  assumes "distinct (map fst (declared_blocks gb))"
  shows "block_dof (DofManager_init gb) = zip (map fst (declared_blocks gb)) [0..<length (declared_blocks gb)]"
proof -
  obtain c where a: "add_blocks (declared_blocks gb) (0, [], []) = (c, block_dof (DofManager_init gb), full_dof (DofManager_init gb))"
    by (rule DofManager_init_parts)
  show ?thesis using add_blocks_distinct[OF a assms] by simp
qed

lemma block_dof_init_bound:
  assumes "map_of (block_dof (DofManager_init gb)) k = Some b"
  shows "b < length (full_dof (DofManager_init gb))"
proof -
  obtain c where a: "add_blocks (declared_blocks gb) (0, [], []) = (c, block_dof (DofManager_init gb), full_dof (DofManager_init gb))"
    by (rule DofManager_init_parts)
  show ?thesis using add_blocks_lookup_bound[OF a assms] by (simp add: full_dof_init)
qed

lemma block_dof_init_None:
  "(map_of (block_dof (DofManager_init gb)) k = None) = (k \<notin> fst ` set (declared_blocks gb))"
proof -
  obtain c where a: "add_blocks (declared_blocks gb) (0, [], []) = (c, block_dof (DofManager_init gb), full_dof (DofManager_init gb))"
    by (rule DofManager_init_parts)
  show ?thesis using add_blocks_lookup_dom[OF a, of k] by simp
qed

lemma dof_ind_Some:
  assumes "map_of (block_dof dm) (g, name) = Some b" and "b < length (full_dof dm)"
  shows "dof_ind dm g name = Inr (block_range (full_dof dm) b)"
  using assms
  by (simp add: dof_ind_def Let_def block_range_def cumsum_def length_cumsum_from
        dof_start_nth[unfolded cumsum_def] del: nth_Cons_Suc)
      (simp add: cumsum_from_nth)

section \<open>The small grid bucket, evaluated\<close>

lemma ex_declared_blocks:
  "declared_blocks ex_gb =
     [((Node ex_g1, ''p''), 2), ((Node ex_g1, ''u''), 7), ((Node ex_g2, ''p''), 2),
      ((Edge ex_g1 ex_g2, ''lam''), 3)]"
  by (simp add: declared_blocks_def node_entries_def edge_entries_def ex_gb_def ex_data_def
        spec_block_size_def ex_g1_def ex_g2_def ex_g3_def)

lemma ex_dm:
  "DofManager_init ex_gb =
     \<lparr>block_dof = [((Node ex_g1, ''p''), 0), ((Node ex_g1, ''u''), 1), ((Node ex_g2, ''p''), 2),
                   ((Edge ex_g1 ex_g2, ''lam''), 3)],
      full_dof = [2, 7, 2, 3]\<rparr>"
  by (simp add: DofManager_init_def ex_gb_def ex_data_def node_total_local_dofs_def
        edge_total_local_dofs_def dict_get_def ex_g1_def ex_g2_def ex_g3_def)

lemma ex_distinct: "distinct (map fst (declared_blocks ex_gb))"
  by (simp add: ex_declared_blocks ex_g1_def ex_g2_def)

lemma ex_ranges:
  "block_range [2, 7, 2, 3] 0 = [0..<2]" "block_range [2, 7, 2, 3] 1 = [2..<9]"
  "block_range [2, 7, 2, 3] 2 = [9..<11]" "block_range [2, 7, 2, 3] 3 = [11..<14]"
  by (simp_all add: block_range_def eval_nat_numeral del: upt_Suc)

section \<open>Index ranges of the blocks\<close>

text \<open>
  Claim C3. In the manager built from a grid bucket, \<open>dof_ind\<close> of a pair with block
  index \<open>b\<close> returns the range from the sum of the sizes of the blocks before \<open>b\<close> to
  the sum up to and including \<open>b\<close>; every declared pair has a block index; the ranges of
  the blocks \<open>0, 1, \<dots>\<close> in this order, put one after the other, are \<open>0, 1, \<dots>\<close> up to the
  total number of dofs, so they leave no gap and do not overlap; and when no pair is
  declared twice, the declared pairs in declaration order get exactly these ranges.
\<close>

theorem dof_ind_block_ranges:
  "(\<forall>g name b. map_of (block_dof (DofManager_init gb)) (g, name) = Some b \<longrightarrow>
      dof_ind (DofManager_init gb) g name = Inr (block_range (full_dof (DofManager_init gb)) b))
   \<and> (\<forall>k \<in> set (map fst (declared_blocks gb)).
        \<exists>b. map_of (block_dof (DofManager_init gb)) k = Some b)
   \<and> concat (map (block_range (full_dof (DofManager_init gb)))
               [0..<length (full_dof (DofManager_init gb))])
       = [0..<sum_list (full_dof (DofManager_init gb))]
   \<and> (distinct (map fst (declared_blocks gb)) \<longrightarrow>
        map (\<lambda>k. dof_ind (DofManager_init gb) (fst k) (snd k)) (map fst (declared_blocks gb))
          = map (\<lambda>b. Inr (block_range (full_dof (DofManager_init gb)) b))
              [0..<length (full_dof (DofManager_init gb))])"
proof (intro conjI allI impI ballI)
  fix g name b
  assume a: "map_of (block_dof (DofManager_init gb)) (g, name) = Some b"
  show "dof_ind (DofManager_init gb) g name = Inr (block_range (full_dof (DofManager_init gb)) b)"
    by (rule dof_ind_Some[OF a block_dof_init_bound[OF a]])
next
  fix k assume "k \<in> set (map fst (declared_blocks gb))"
  then have "map_of (block_dof (DofManager_init gb)) k \<noteq> None"
    by (simp add: block_dof_init_None)
  then show "\<exists>b. map_of (block_dof (DofManager_init gb)) k = Some b" by auto
next
  show "concat (map (block_range (full_dof (DofManager_init gb)))
               [0..<length (full_dof (DofManager_init gb))])
       = [0..<sum_list (full_dof (DofManager_init gb))]"
    using ranges_concat[of "full_dof (DofManager_init gb)"]
    by (simp add: block_range_def[abs_def])
next
  assume d: "distinct (map fst (declared_blocks gb))"
  let ?dm = "DofManager_init gb"
  let ?ks = "map fst (declared_blocks gb)"
  have len: "length (full_dof ?dm) = length ?ks" by (simp add: full_dof_init)
  have bd: "block_dof ?dm = zip ?ks [0..<length ?ks]"
    using block_dof_init_distinct[OF d] by simp
  show "map (\<lambda>k. dof_ind ?dm (fst k) (snd k)) ?ks
          = map (\<lambda>b. Inr (block_range (full_dof ?dm) b)) [0..<length (full_dof ?dm)]"
  proof (rule nth_equalityI)
    show "length (map (\<lambda>k. dof_ind ?dm (fst k) (snd k)) ?ks)
        = length (map (\<lambda>b. Inr (block_range (full_dof ?dm) b)) [0..<length (full_dof ?dm)])"
      by (simp add: len)
  next
    fix i assume "i < length (map (\<lambda>k. dof_ind ?dm (fst k) (snd k)) ?ks)"
    then have i: "i < length ?ks" by simp
    have "map_of (zip ?ks [0..<length ?ks]) (?ks ! i) = Some ([0..<length ?ks] ! i)"
      by (rule map_of_zip_nth) (use d i in simp_all)
    then have m: "map_of (block_dof ?dm) (fst (?ks ! i), snd (?ks ! i)) = Some i"
      using i by (simp add: bd)
    have "dof_ind ?dm (fst (?ks ! i)) (snd (?ks ! i)) = Inr (block_range (full_dof ?dm) i)"
      by (rule dof_ind_Some[OF m]) (use i len in simp)
    then show "map (\<lambda>k. dof_ind ?dm (fst k) (snd k)) ?ks ! i
        = map (\<lambda>b. Inr (block_range (full_dof ?dm) b)) [0..<length (full_dof ?dm)] ! i"
      using i len by simp
  qed
qed

theorem dof_ind_block_ranges_witness:
  "map_of (block_dof (DofManager_init ex_gb)) (Node ex_g1, ''u'') = Some 1
   \<and> dof_ind (DofManager_init ex_gb) (Node ex_g1) ''u'' = Inr [2..<9]
   \<and> (Edge ex_g1 ex_g2, ''lam'') \<in> set (map fst (declared_blocks ex_gb))
   \<and> (\<exists>b. map_of (block_dof (DofManager_init ex_gb)) (Edge ex_g1 ex_g2, ''lam'') = Some b)
   \<and> distinct (map fst (declared_blocks ex_gb))
   \<and> map (\<lambda>k. dof_ind (DofManager_init ex_gb) (fst k) (snd k)) (map fst (declared_blocks ex_gb))
       = [Inr [0..<2], Inr [2..<9], Inr [9..<11], Inr [11..<14]]
   \<and> concat [[0..<2], [2..<9], [9..<11], [11..<14]] = [0..<14]"
proof -
  let ?dm = "DofManager_init ex_gb"
  have m: "map_of (block_dof ?dm) (Node ex_g1, ''u'') = Some 1"
    by (simp add: ex_dm ex_g1_def ex_g2_def)
  have k: "(Edge ex_g1 ex_g2, ''lam'') \<in> set (map fst (declared_blocks ex_gb))"
    by (simp add: ex_declared_blocks)
  have fd: "full_dof ?dm = [2, 7, 2, 3]" by (simp add: ex_dm)
  have u: "[0..<length [2, 7, 2, 3::nat]] = [0, 1, 2, 3]"
    by (simp add: upt_conv_Cons)
  have s: "sum_list [2, 7, 2, 3::nat] = 14" by simp
  note t = dof_ind_block_ranges[of ex_gb]
  from t m have "dof_ind ?dm (Node ex_g1) ''u'' = Inr (block_range (full_dof ?dm) 1)"
    by blast
  then have 1: "dof_ind ?dm (Node ex_g1) ''u'' = Inr [2..<9]"
    by (simp only: fd ex_ranges)
  from t k have 2: "\<exists>b. map_of (block_dof ?dm) (Edge ex_g1 ex_g2, ''lam'') = Some b"
    by blast
  from t ex_distinct
  have "map (\<lambda>k. dof_ind ?dm (fst k) (snd k)) (map fst (declared_blocks ex_gb))
          = map (\<lambda>b. Inr (block_range (full_dof ?dm) b)) [0..<length (full_dof ?dm)]"
    by blast
  then have 3: "map (\<lambda>k. dof_ind ?dm (fst k) (snd k)) (map fst (declared_blocks ex_gb))
       = [Inr [0..<2], Inr [2..<9], Inr [9..<11], Inr [11..<14]]"
    by (simp only: fd u list.map ex_ranges)
  from t have "concat (map (block_range (full_dof ?dm)) [0..<length (full_dof ?dm)])
       = [0..<sum_list (full_dof ?dm)]"
    by blast
  then have 4: "concat [[0..<2], [2..<9], [9..<11], [11..<14]] = [0..<14]"
    by (simp only: fd u s list.map ex_ranges)
  show ?thesis using m k 1 2 3 4 ex_distinct by blast
qed

text \<open>
  Claim C4. The sizes in \<open>full_dof\<close> are those of the declared pairs in declaration
  order, each the cells, faces and nodes times their numbers of dofs with a missing
  kind counted as zero, entities with no primary variables contributing nothing; the
  sum of \<open>full_dof\<close> is the sum of these sizes; and when no pair is declared twice the
  pairs get the block indices \<open>0, 1, \<dots>\<close> in declaration order and \<open>full_dof\<close> and
  \<open>block_dof\<close> have the same length.
\<close>

theorem DofManager_init_layout:
  "full_dof (DofManager_init gb) = map snd (declared_blocks gb)
   \<and> sum_list (full_dof (DofManager_init gb)) = sum_list (map snd (declared_blocks gb))
   \<and> (distinct (map fst (declared_blocks gb)) \<longrightarrow>
        block_dof (DofManager_init gb)
          = zip (map fst (declared_blocks gb)) [0..<length (declared_blocks gb)]
        \<and> length (full_dof (DofManager_init gb)) = length (block_dof (DofManager_init gb)))"
  using block_dof_init_distinct[of gb] by (simp add: full_dof_init)

theorem DofManager_init_layout_witness:
  "distinct (map fst (declared_blocks ex_gb))
   \<and> full_dof (DofManager_init ex_gb) = [2, 7, 2, 3]
   \<and> sum_list (full_dof (DofManager_init ex_gb)) = 14
   \<and> block_dof (DofManager_init ex_gb)
       = [((Node ex_g1, ''p''), 0), ((Node ex_g1, ''u''), 1), ((Node ex_g2, ''p''), 2),
          ((Edge ex_g1 ex_g2, ''lam''), 3)]
   \<and> length (full_dof (DofManager_init ex_gb)) = length (block_dof (DofManager_init ex_gb))"
  using DofManager_init_layout[of ex_gb] ex_distinct
  by (simp add: ex_declared_blocks upt_conv_Cons)

text \<open>
  Claim C8. For a pair that was never declared, \<open>dof_ind\<close> returns no index array: it
  raises \<open>KeyError\<close>, and the error carries the grid or edge and the variable name.
\<close>

theorem dof_ind_undeclared:
  assumes "(g, name) \<notin> set (map fst (declared_blocks gb))"
  shows "dof_ind (DofManager_init gb) g name = Inl (KeyError (BlockKey g name))"
proof -
  have "map_of (block_dof (DofManager_init gb)) (g, name) = None"
    using assms by (simp add: block_dof_init_None)
  then show ?thesis by (simp add: dof_ind_def)
qed

theorem dof_ind_undeclared_witness:
  "(Node ex_g3, ''p'') \<notin> set (map fst (declared_blocks ex_gb))
   \<and> dof_ind (DofManager_init ex_gb) (Node ex_g3) ''p'' = Inl (KeyError (BlockKey (Node ex_g3) ''p''))"
proof -
  have h: "(Node ex_g3, ''p'') \<notin> set (map fst (declared_blocks ex_gb))"
    by (simp add: ex_declared_blocks ex_g1_def ex_g2_def ex_g3_def)
  show ?thesis using h dof_ind_undeclared[OF h] by simp
qed

section \<open>The store of matrices during an evaluation\<close>

lemma cache_ext_refl: "cache_ext x gb c c"
  by (simp add: cache_ext_def)

lemma cache_ext_trans: "cache_ext x gb c c1 \<Longrightarrow> cache_ext x gb c1 c2 \<Longrightarrow> cache_ext x gb c c2"
  unfolding cache_ext_def by metis

lemma cache_ext_store:
  "c op = None \<Longrightarrow> fresh_matrix x gb op = Some m \<Longrightarrow> cache_ext x gb c (c(op \<mapsto> m))"
  by (simp add: cache_ext_def)

lemma parse_grows:
  "cache_ext x gb c (snd (parse_operator x gb ads t c))"
  "cache_ext x gb c (snd (parse_children x gb ads ts c))"
proof (induction x gb ads t c and x gb ads ts c rule: parse_operator_parse_children.induct)
  case (9 x gb ads obj grid_discr key mdk c)
  show ?case
    by (auto simp: cache_ext_refl fresh_matrix_def intro!: cache_ext_store
          split: option.splits sum.splits)
next
  case (10 x gb ads tag children c)
  then show ?case
    by (auto simp: cache_ext_refl split: prod.splits sum.splits)
next
  case (12 x gb ads child rest c)
  show ?case
  proof (cases "parse_operator x gb ads child c")
    case (Pair r c')
    note p = Pair
    have e1: "cache_ext x gb c c'" using 12(1) p by simp
    show ?thesis
    proof (cases r)
      case (Inl e)
      then show ?thesis using p e1 by simp
    next
      case (Inr v)
      have e2: "cache_ext x gb c' (snd (parse_children x gb ads rest c'))"
        using 12(2)[OF p[symmetric] Inr] .
      show ?thesis using p Inr cache_ext_trans[OF e1 e2]
        by (auto split: prod.splits sum.splits)
    qed
  qed
qed (simp_all add: cache_ext_refl)


lemma cache_ext_hit:
  "cache_ext x gb c c' \<Longrightarrow> c op = Some m \<Longrightarrow> c' op = Some m"
  unfolding cache_ext_def by (metis option.distinct(1))

lemma cache_ext_miss:
  "cache_ext x gb c c' \<Longrightarrow> c op = None \<Longrightarrow> c' op = None \<or> c' op = fresh_matrix x gb op"
  unfolding cache_ext_def by metis

lemma cache_ext_upd_both:
  "cache_ext x gb c c' \<Longrightarrow> cache_ext x gb (c(op \<mapsto> m)) (c'(op \<mapsto> m))"
  by (simp add: cache_ext_def)

lemma cache_ext_upd_left:
  "cache_ext x gb c c' \<Longrightarrow> c' op = Some m \<Longrightarrow> cache_ext x gb (c(op \<mapsto> m)) c'"
  by (simp add: cache_ext_def)

lemma parse_merged_ext:
  assumes "cache_ext x gb c c'"
  shows "fst (parse_operator x gb ads (MergedOperator obj gd key mdk) c')
           = fst (parse_operator x gb ads (MergedOperator obj gd key mdk) c)
         \<and> cache_ext x gb (snd (parse_operator x gb ads (MergedOperator obj gd key mdk) c))
              (snd (parse_operator x gb ads (MergedOperator obj gd key mdk) c'))"
proof (cases "c (MergedOperator obj gd key mdk)")
  case (Some m)
  then show ?thesis using cache_ext_hit[OF assms Some] assms by simp
next
  case None
  let ?op = "MergedOperator obj gd key mdk"
  from cache_ext_miss[OF assms None] consider "c' ?op = None" | m where "c' ?op = Some m" "fresh_matrix x gb ?op = Some m"
    by (cases "c' ?op") auto
  then show ?thesis
  proof cases
    case 1
    then show ?thesis using None assms
      by (auto split: sum.splits intro: cache_ext_upd_both)
  next
    case 2
    then show ?thesis using None assms
      by (auto simp: fresh_matrix_def split: sum.splits intro: cache_ext_upd_left)
  qed
qed

lemma parse_ext:
  "cache_ext x gb c c' \<Longrightarrow>
     fst (parse_operator x gb ads t c') = fst (parse_operator x gb ads t c)
     \<and> cache_ext x gb (snd (parse_operator x gb ads t c)) (snd (parse_operator x gb ads t c'))"
  "cache_ext x gb c c' \<Longrightarrow>
     fst (parse_children x gb ads ts c') = fst (parse_children x gb ads ts c)
     \<and> cache_ext x gb (snd (parse_children x gb ads ts c)) (snd (parse_children x gb ads ts c'))"
proof (induction x gb ads t c and x gb ads ts c arbitrary: c' and c'
       rule: parse_operator_parse_children.induct)
  case (9 x gb ads obj grid_discr key mdk c)
  then show ?case by (rule parse_merged_ext)
next
  case (10 x gb ads tag children c)
  show ?case
  proof (cases "children = []")
    case True
    then show ?thesis using 10(2) by simp
  next
    case False
    from 10(1)[OF False 10(2)]
    have "fst (parse_children x gb ads children c') = fst (parse_children x gb ads children c)"
      and "cache_ext x gb (snd (parse_children x gb ads children c))
             (snd (parse_children x gb ads children c'))"
      by simp_all
    then show ?thesis using False
      by (cases "parse_children x gb ads children c"; cases "parse_children x gb ads children c'")
         (auto split: sum.splits)
  qed
next
  case (12 x gb ads child rest c)
  obtain r c1 where p: "parse_operator x gb ads child c = (r, c1)"
    by (cases "parse_operator x gb ads child c")
  obtain r' c1' where p': "parse_operator x gb ads child c' = (r', c1')"
    by (cases "parse_operator x gb ads child c'")
  from 12(1)[OF 12(3)] p p' have rr: "r' = r" and e1: "cache_ext x gb c1 c1'" by simp_all
  show ?case
  proof (cases r)
    case (Inl e)
    then show ?thesis using p p' rr e1 by simp
  next
    case (Inr v)
    from 12(2)[OF p[symmetric] Inr e1]
    have "fst (parse_children x gb ads rest c1') = fst (parse_children x gb ads rest c1)"
      and "cache_ext x gb (snd (parse_children x gb ads rest c1))
             (snd (parse_children x gb ads rest c1'))"
      by simp_all
    then show ?thesis using p p' rr Inr
      by (cases "parse_children x gb ads rest c1"; cases "parse_children x gb ads rest c1'")
         (auto split: sum.splits)
  qed
qed simp_all

lemma parse_again:
  "fst (parse_operator x gb ads t (snd (parse_operator x gb ads t c)))
     = fst (parse_operator x gb ads t c)"
  using parse_ext(1)[OF parse_grows(1)] by blast

section \<open>Assembly\<close>

lemma to_ad_fst:
  "state_slices state (variable_dofs eq) = Inr slices \<Longrightarrow>
   fst (to_ad x asm gb state eq)
     = fst (parse_operator x (asm_gb asm)
             (dict_of_pairs (zip (variable_ids eq) (initAdArrays x slices)))
             (eq_operator eq) (stored_matrices eq))"
  by (simp add: to_ad_def Let_def split: prod.splits)

lemma to_ad_snd:
  "state_slices state (variable_dofs eq) = Inr slices \<Longrightarrow>
   snd (to_ad x asm gb state eq)
     = eq\<lparr>ad := Some (dict_of_pairs (zip (variable_ids eq) (initAdArrays x slices))),
          stored_matrices := snd (parse_operator x (asm_gb asm)
             (dict_of_pairs (zip (variable_ids eq) (initAdArrays x slices)))
             (eq_operator eq) (stored_matrices eq))\<rparr>"
  by (simp add: to_ad_def Let_def split: prod.splits)

lemma to_ad_error:
  "state_slices state (variable_dofs eq) = Inl e \<Longrightarrow> to_ad x asm gb state eq = (Inl e, eq)"
  by (simp add: to_ad_def)

lemma to_ad_frame:
  "\<exists>a c. snd (to_ad x asm gb state eq) = eq\<lparr>ad := a, stored_matrices := c\<rparr>
         \<and> cache_ext x (asm_gb asm) (stored_matrices eq) c"
proof (cases "state_slices state (variable_dofs eq)")
  case (Inl e)
  have "eq = eq\<lparr>ad := ad eq, stored_matrices := stored_matrices eq\<rparr>" by simp
  then show ?thesis using to_ad_error[OF Inl] cache_ext_refl by (metis snd_conv)
next
  case (Inr slices)
  show ?thesis unfolding to_ad_snd[OF Inr] using parse_grows(1) by blast
qed

lemma to_ad_again:
  "fst (to_ad x asm gb state (snd (to_ad x asm gb state eq))) = fst (to_ad x asm gb state eq)"
proof (cases "state_slices state (variable_dofs eq)")
  case (Inl e)
  then show ?thesis by (simp add: to_ad_error)
next
  case (Inr slices)
  let ?eq' = "snd (to_ad x asm gb state eq)"
  have s': "state_slices state (variable_dofs ?eq') = Inr slices"
    using Inr by (simp add: to_ad_snd[OF Inr])
  show ?thesis
    unfolding to_ad_fst[OF s'] to_ad_fst[OF Inr]
    by (simp add: to_ad_snd[OF Inr] parse_again)
qed

lemma to_ad_variable_dofs: "variable_dofs (snd (to_ad x asm gb state eq)) = variable_dofs eq"
  using to_ad_frame[of x asm gb state eq] by auto

lemma assemble_equation_snd:
  "snd (assemble_equation x em n state eq) = snd (to_ad x (em_assembler em) (em_gb em) state eq)"
  by (simp add: assemble_equation_def split: prod.splits sum.splits ad_value.splits)

lemma assemble_equation_fst:
  "fst (assemble_equation x em n state eq) =
     (case fst (to_ad x (em_assembler em) (em_gb em) state eq) of
        Inl e \<Rightarrow> Inl e
      | Inr a \<Rightarrow>
          (case local_dofs eq of
             Inl e \<Rightarrow> Inl e
           | Inr ldofs \<Rightarrow>
               (case projection_of ldofs n of
                  Inl e \<Rightarrow> Inl e
                | Inr projection \<Rightarrow>
                    (case a of
                       AdArray v j \<Rightarrow>
                         (case matmul j projection of
                            Inl e \<Rightarrow> Inl e
                          | Inr m \<Rightarrow> Inr (m, map uminus v))
                     | _ \<Rightarrow> Inl AttributeError))))"
proof -
  obtain r eq' where t: "to_ad x (em_assembler em) (em_gb em) state eq = (r, eq')"
    by (cases "to_ad x (em_assembler em) (em_gb em) state eq")
  have "variable_dofs eq' = variable_dofs eq"
    using to_ad_variable_dofs[of x "em_assembler em" "em_gb em" state eq] t by simp
  then have l: "local_dofs eq' = local_dofs eq" by (simp add: local_dofs_def)
  show ?thesis
    by (simp add: assemble_equation_def t l split: sum.splits ad_value.splits)
qed

lemma assemble_equation_again:
  "fst (assemble_equation x em n state (snd (assemble_equation x em n state eq)))
     = fst (assemble_equation x em n state eq)"
proof -
  have l: "local_dofs (snd (to_ad x (em_assembler em) (em_gb em) state eq)) = local_dofs eq"
    by (simp add: local_dofs_def to_ad_variable_dofs)
  show ?thesis
    unfolding assemble_equation_snd assemble_equation_fst to_ad_again l ..
qed

lemma assemble_equation_em:
  "assemble_equation x (em\<lparr>equations := eqs\<rparr>) n state eq = assemble_equation x em n state eq"
  by (simp add: assemble_equation_def)

lemma assemble_loop_em:
  "assemble_loop x (em\<lparr>equations := eqs'\<rparr>) n state eqs acc = assemble_loop x em n state eqs acc"
  by (induction x em n state eqs acc rule: assemble_loop.induct)
     (simp_all add: assemble_equation_em split: prod.splits sum.splits)

text \<open>The equations after the loop: each one as its own step left it, or untouched.\<close>

lemma assemble_loop_snd:
  "list_all2 (\<lambda>e e'. e' = e \<or> e' = snd (assemble_equation x em n state e))
     eqs (snd (assemble_loop x em n state eqs acc))"
proof (induction x em n state eqs acc rule: assemble_loop.induct)
  case (1 x em n state acc)
  then show ?case by simp
next
  case (2 x em n state eq rest mat b)
  obtain r eq' where a: "assemble_equation x em n state eq = (r, eq')"
    by (cases "assemble_equation x em n state eq")
  show ?case
  proof (cases r)
    case (Inl e)
    have "list_all2 (\<lambda>e e'. e' = e \<or> e' = snd (assemble_equation x em n state e)) rest rest"
      by (simp add: list_all2_same)
    then show ?thesis using a Inl by simp
  next
    case (Inr mv)
    obtain m v where mv: "mv = (m, v)" by (cases mv)
    from 2[OF a[symmetric] Inr mv[symmetric]] show ?thesis
      using a Inr mv by (simp add: case_prod_beta)
  qed
qed

lemma assemble_loop_fst_cong:
  "list_all2 (\<lambda>e e'. fst (assemble_equation x em n state e') = fst (assemble_equation x em n state e))
     eqs eqs' \<Longrightarrow>
   fst (assemble_loop x em n state eqs' acc) = fst (assemble_loop x em n state eqs acc)"
proof (induction eqs eqs' arbitrary: acc rule: list_all2_induct)
  case Nil
  then show ?case by simp
next
  case (Cons e es e' es')
  obtain mat b where acc: "acc = (mat, b)" by (cases acc)
  obtain r q where a: "assemble_equation x em n state e = (r, q)"
    by (cases "assemble_equation x em n state e")
  obtain r' q' where a': "assemble_equation x em n state e' = (r', q')"
    by (cases "assemble_equation x em n state e'")
  have rr: "r' = r" using Cons(1) a a' by simp
  show ?case
  proof (cases r)
    case (Inl err)
    then show ?thesis using a a' rr acc by simp
  next
    case (Inr mv)
    obtain m v where mv: "mv = (m, v)" by (cases mv)
    show ?thesis using a a' rr acc Inr mv Cons(3)[of "(mat @ [m], b @ [v])"]
      by (simp add: case_prod_beta)
  qed
qed

lemma assemble_loop_again:
  "fst (assemble_loop x em n state (snd (assemble_loop x em n state eqs acc)) acc')
     = fst (assemble_loop x em n state eqs acc')"
proof (rule assemble_loop_fst_cong)
  show "list_all2 (\<lambda>e e'. fst (assemble_equation x em n state e') = fst (assemble_equation x em n state e))
     eqs (snd (assemble_loop x em n state eqs acc))"
    by (rule list_all2_mono[OF assemble_loop_snd]) (auto simp: assemble_equation_again)
qed

lemma assemble_matrix_rhs_fst:
  "fst (assemble_matrix_rhs x em state) =
     (case fst (assemble_loop x em (sum_list (full_dof (asm_dof (em_assembler em)))) state
                  (equations em) ([], [])) of
        Inl e \<Rightarrow> Inl e
      | Inr (mat, b) \<Rightarrow>
          (case bmat_column mat of
             Inl e \<Rightarrow> Inl e
           | Inr A \<Rightarrow> (case hstack b of Inl e \<Rightarrow> Inl e | Inr rhs \<Rightarrow> Inr (A, rhs))))"
  by (simp add: assemble_matrix_rhs_def Let_def split: prod.splits sum.splits)

lemma assemble_matrix_rhs_snd:
  "snd (assemble_matrix_rhs x em state) =
     em\<lparr>equations := snd (assemble_loop x em (sum_list (full_dof (asm_dof (em_assembler em))))
                             state (equations em) ([], []))\<rparr>"
  by (simp add: assemble_matrix_rhs_def Let_def split: prod.splits sum.splits)

text \<open>
  Claim C6. Assembling a second time, from the same state and the same stores, with
  the equations as the first call left them, returns what the first call returned: the
  same matrix and right-hand side, or the same exception.
\<close>

theorem assemble_matrix_rhs_idempotent:
  "fst (assemble_matrix_rhs x (snd (assemble_matrix_rhs x em state)) state)
     = fst (assemble_matrix_rhs x em state)"
  by (simp add: assemble_matrix_rhs_fst assemble_matrix_rhs_snd assemble_loop_em
        assemble_loop_again)

text \<open>
  Claim C10. With no equation, \<open>assemble_matrix_rhs\<close> raises \<open>ValueError\<close>, from
  \<open>sps.bmat\<close> of an empty list of blocks, and returns no pair.
\<close>

theorem assemble_matrix_rhs_no_equations:
  "assemble_matrix_rhs x (em\<lparr>equations := []\<rparr>) state = (Inl ValueError, em\<lparr>equations := []\<rparr>)"
  by (simp add: assemble_matrix_rhs_def bmat_column_def)

section \<open>What an evaluation changes in an equation\<close>

lemma assemble_equation_frame:
  "\<exists>a c. snd (assemble_equation x em n state eq) = eq\<lparr>ad := a, stored_matrices := c\<rparr>
         \<and> cache_ext x (asm_gb (em_assembler em)) (stored_matrices eq) c"
  unfolding assemble_equation_snd by (rule to_ad_frame)

lemma equation_unchanged_frame:
  "\<exists>a c. eq = eq\<lparr>ad := a, stored_matrices := c\<rparr> \<and> cache_ext x gb (stored_matrices eq) c"
proof -
  have "eq = eq\<lparr>ad := ad eq, stored_matrices := stored_matrices eq\<rparr>" by simp
  then show ?thesis using cache_ext_refl by blast
qed

lemma to_ad_ad:
  "state_slices state (variable_dofs eq) = Inr slices \<Longrightarrow>
   ad (snd (to_ad x asm gb state eq)) \<noteq> None"
  by (simp add: to_ad_snd)

section \<open>The scatter matrix\<close>

lemma hit_sum:
  "sum_list (map (\<lambda>r. if r = i \<and> g r then (1::real) else 0) [0..<k]) = (if i < k \<and> g i then 1 else 0)"
  by (induction k) auto

lemma scatter_triples:
  "zip (replicate (length idx) (1::real)) (zip [0..<length idx] idx)
     = map (\<lambda>r. (1, r, idx ! r)) [0..<length idx]"
  by (rule nth_equalityI) simp_all

lemma scatter_entry:
  "sum_list (map fst (filter (\<lambda>(d, r, c). r = i \<and> c = j)
       (zip (replicate (length idx) (1::real)) (zip [0..<length idx] idx))))
     = (if i < length idx \<and> idx ! i = j then 1 else 0)"
proof -
  have "sum_list (map fst (filter (\<lambda>(d, r, c). r = i \<and> c = j)
          (map (\<lambda>r. (1::real, r, idx ! r)) [0..<length idx])))
      = sum_list (map (\<lambda>r. if r = i \<and> idx ! r = j then (1::real) else 0) [0..<length idx])"
    by (simp add: sum_list_map_filter' comp_def cong: if_cong)
  then show ?thesis by (simp add: scatter_triples hit_sum)
qed

lemma projection_of_eq:
  assumes "list_all (\<lambda>i. i < n) idx"
  shows "projection_of idx n
           = Inr (Matrix n (map (\<lambda>i. map (\<lambda>j. if idx ! i = j then 1 else 0) [0..<n])
                             [0..<length idx]))"
proof -
  have "map (\<lambda>i. map (\<lambda>j. sum_list (map fst (filter (\<lambda>(d, r, c). r = i \<and> c = j)
                (zip (replicate (length idx) (1::real)) (zip [0..<length idx] idx)))))
              [0..<n]) [0..<length idx]
      = map (\<lambda>i. map (\<lambda>j. if idx ! i = j then 1 else 0) [0..<n]) [0..<length idx]"
    by (rule map_cong[OF refl]) (simp add: scatter_entry)
  then show ?thesis using assms
    by (simp add: projection_of_def coo_matrix_def Let_def list_all_length)
qed

lemma projection_of_ncols: "projection_of idx n = Inr P \<Longrightarrow> ncols P = n"
  by (auto simp: projection_of_def coo_matrix_def Let_def split: if_splits)

lemma matmul_ncols: "matmul a b = Inr m \<Longrightarrow> ncols m = ncols b"
  by (auto simp: matmul_def split: if_splits)

section \<open>The indices of an equation lie in the layout\<close>

lemma sum_list_take_le: "sum_list (take k (fd::nat list)) \<le> sum_list fd"
proof -
  have "sum_list fd = sum_list (take k fd) + sum_list (drop k fd)"
    by (metis append_take_drop_id sum_list_append)
  then show ?thesis by simp
qed

lemma dof_ind_in_range:
  assumes "dof_ind dm g name = Inr r"
  shows "list_all (\<lambda>i. i < sum_list (full_dof dm)) r"
proof -
  from assms obtain b where b: "map_of (block_dof dm) (g, name) = Some b"
    by (auto simp: dof_ind_def split: option.splits)
  from assms b have lt: "b < length (full_dof dm)"
    by (auto simp: dof_ind_def Let_def cumsum_def length_cumsum_from split: if_splits)
  from dof_ind_Some[OF b lt] assms have r: "r = block_range (full_dof dm) b" by simp
  show ?thesis unfolding r block_range_def list_all_iff
    using sum_list_take_le[of "b + 1" "full_dof dm"] by auto
qed

lemma sub_var_inds_in_range:
  "sub_var_inds dm vs = Inr inds \<Longrightarrow> list_all (list_all (\<lambda>i. i < sum_list (full_dof dm))) inds"
proof (induction vs arbitrary: inds)
  case Nil
  then show ?case by simp
next
  case (Cons v vs)
  then show ?case by (auto split: sum.splits dest: dof_ind_in_range)
qed

lemma variable_inds_in_range:
  assumes "variable_inds dm v = Inr (ind, ids)"
  shows "list_all (\<lambda>i. i < sum_list (full_dof dm)) ind"
proof (cases v)
  case (VariableOp w)
  then show ?thesis using assms
    by (auto simp: variable_inds_def split: sum.splits dest: dof_ind_in_range)
next
  case (MergedVariableOp obj sv rest)
  with assms obtain ind_var where s: "sub_var_inds dm (sv # rest) = Inr ind_var"
    and c: "ind = concat ind_var"
    by (auto simp: variable_inds_def hstack_def split: sum.splits if_splits)
  show ?thesis using sub_var_inds_in_range[OF s] by (auto simp: c list_all_iff)
qed (use assms in \<open>simp_all add: variable_inds_def\<close>)

lemma variables_loop_in_range:
  "variables_loop dm vs (inds0, ids0) = Inr (inds, ids) \<Longrightarrow>
   list_all (list_all (\<lambda>i. i < sum_list (full_dof dm))) inds0 \<Longrightarrow>
   list_all (list_all (\<lambda>i. i < sum_list (full_dof dm))) inds"
proof (induction vs arbitrary: inds0 ids0)
  case Nil
  then show ?case by simp
next
  case (Cons v vs)
  then show ?case
    by (auto split: sum.splits prod.splits dest: variable_inds_in_range)
qed

lemma Equation_init_in_range:
  assumes "Equation_init set_list t dm name = Inr eq0"
  shows "list_all (list_all (\<lambda>i. i < sum_list (full_dof dm))) (variable_dofs eq0)"
proof -
  from assms obtain vdofs vids where
    i: "identify_variables set_list dm t = Inr (vdofs, vids)" and v: "variable_dofs eq0 = vdofs"
    by (auto simp: Equation_init_def split: sum.splits)
  from i obtain vars where "variables_loop dm vars ([], []) = Inr (vdofs, vids)"
    by (auto simp: identify_variables_def split: found.splits)
  from variables_loop_in_range[OF this] show ?thesis by (simp add: v)
qed

section \<open>Stacking the equations\<close>

lemma assemble_loop_all_ok:
  "list_all2 (\<lambda>eq mv. fst (assemble_equation x em n state eq) = Inr mv) eqs mvs \<Longrightarrow>
   fst (assemble_loop x em n state eqs (mat, b)) = Inr (mat @ map fst mvs, b @ map snd mvs)"
proof (induction eqs mvs arbitrary: mat b rule: list_all2_induct)
  case Nil
  then show ?case by simp
next
  case (Cons eq eqs mv mvs)
  obtain m v where mv: "mv = (m, v)" by (cases mv)
  obtain q where a: "assemble_equation x em n state eq = (Inr (m, v), q)"
    using Cons(1) mv by (cases "assemble_equation x em n state eq") simp
  show ?case using Cons(3)[of "mat @ [m]" "b @ [v]"] a mv
    by (simp add: case_prod_beta)
qed

lemma assemble_equation_ok:
  assumes "fst (to_ad x (em_assembler em) (em_gb em) state eq) = Inr (AdArray v j)"
      and "local_dofs eq = Inr idx" and "projection_of idx n = Inr P" and "matmul j P = Inr blk"
  shows "fst (assemble_equation x em n state eq) = Inr (blk, map uminus v)"
  using assms by (simp add: assemble_equation_fst)

lemma bmat_column_same_width:
  assumes "ms \<noteq> []" and "list_all (\<lambda>m. ncols m = n) ms"
  shows "bmat_column ms = Inr (Matrix n (concat (map mrows ms)))"
  using assms by (cases ms) (auto simp: bmat_column_def list_all_iff)

lemma assemble_stacks_aux:
  assumes ne: "equations em \<noteq> []"
      and n: "n = sum_list (full_dof (asm_dof (em_assembler em)))"
      and parts: "list_all2 (\<lambda>eq (v, j, blk).
                     fst (to_ad x (em_assembler em) (em_gb em) state eq) = Inr (AdArray v j)
                     \<and> (\<exists>idx P. local_dofs eq = Inr idx \<and> projection_of idx n = Inr P
                                 \<and> matmul j P = Inr blk))
                   (equations em) parts"
  shows "fst (assemble_matrix_rhs x em state)
           = Inr (Matrix n (concat (map (\<lambda>(v, j, blk). mrows blk) parts)),
                  concat (map (\<lambda>(v, j, blk). map uminus v) parts))"
proof -
  let ?mvs = "map (\<lambda>(v, j, blk). (blk, map uminus v)) parts"
  have len: "length parts = length (equations em)"
    using parts by (simp add: list_all2_lengthD)
  have pne: "parts \<noteq> []" using ne len by auto
  have ok: "list_all2 (\<lambda>eq mv. fst (assemble_equation x em n state eq) = Inr mv)
              (equations em) ?mvs"
    unfolding list_all2_map2
    by (rule list_all2_mono[OF parts]) (auto intro: assemble_equation_ok)
  have loop: "fst (assemble_loop x em n state (equations em) ([], []))
                = Inr (map fst ?mvs, map snd ?mvs)"
    using assemble_loop_all_ok[OF ok, of "[]" "[]"] by simp
  have w: "list_all (\<lambda>m. ncols m = n) (map fst ?mvs)"
    unfolding list_all_iff
  proof
    fix m assume "m \<in> set (map fst ?mvs)"
    then obtain v j where "(v, j, m) \<in> set parts" by force
    then obtain k where k: "k < length parts" "parts ! k = (v, j, m)"
      by (auto simp: in_set_conv_nth)
    from list_all2_nthD2[OF parts k(1)] k(2)
    obtain idx P where "projection_of idx n = Inr P" "matmul j P = Inr m" by auto
    then show "ncols m = n" using matmul_ncols projection_of_ncols by metis
  qed
  have A: "bmat_column (map fst ?mvs) = Inr (Matrix n (concat (map mrows (map fst ?mvs))))"
    by (rule bmat_column_same_width[OF _ w]) (use pne in simp)
  have B: "hstack (map snd ?mvs) = Inr (concat (map snd ?mvs))"
    using pne by (simp add: hstack_def)
  have m1: "map mrows (map fst ?mvs) = map (\<lambda>(v, j, blk). mrows blk) parts"
    by (simp add: comp_def case_prod_beta)
  have m2: "map snd ?mvs = map (\<lambda>(v, j, blk). map uminus v) parts"
    by (simp add: comp_def case_prod_beta)
  have "fst (assemble_matrix_rhs x em state)
          = Inr (Matrix n (concat (map mrows (map fst ?mvs))), concat (map snd ?mvs))"
    unfolding assemble_matrix_rhs_fst n[symmetric] loop
    by (simp only: A B sum.case prod.case)
  then show ?thesis unfolding m1 m2 .
qed

section \<open>Malformed nodes\<close>

lemma parse_children_length:
  "parse_children x gb ads ts c = (Inr rs, c') \<Longrightarrow> length rs = length ts"
proof (induction ts arbitrary: c rs c')
  case Nil
  then show ?case by simp
next
  case (Cons t ts)
  then show ?case by (auto split: prod.splits sum.splits)
qed

lemma combine_add_sub_arity:
  "length rs \<noteq> 2 \<Longrightarrow> combine x Add rs = Inl AssertionError \<and> combine x Sub rs = Inl AssertionError"
  by (simp add: combine_def)

lemma combine_void: "combine x Void rs = Inl ValueError"
  by (simp add: combine_def)

text \<open>
  What does raise: addition and subtraction with a number of children other than two,
  an operation that is none of the five, multiplication and division with fewer than
  two children, and an evaluation with no child.
\<close>

lemma parse_malformed_raises:
  "(length ts \<noteq> 2 \<longrightarrow> (\<exists>e. fst (parse_operator x gb ads (Operator Add ts) c) = Inl e)
                        \<and> (\<exists>e. fst (parse_operator x gb ads (Operator Sub ts) c) = Inl e))
   \<and> (\<exists>e. fst (parse_operator x gb ads (Operator Void ts) c) = Inl e)
   \<and> (length ts < 2 \<longrightarrow> (\<exists>e. fst (parse_operator x gb ads (Operator Mul ts) c) = Inl e)
                        \<and> (\<exists>e. fst (parse_operator x gb ads (Operator Div ts) c) = Inl e))
   \<and> (\<exists>e. fst (parse_operator x gb ads (Operator Evaluate []) c) = Inl e)"
proof -
  obtain r c' where p: "parse_children x gb ads ts c = (r, c')"
    by (cases "parse_children x gb ads ts c")
  show ?thesis
  proof (cases r)
    case (Inl e)
    then show ?thesis using p by auto
  next
    case (Inr rs)
    have "length rs = length ts" using parse_children_length p Inr by blast
    then show ?thesis using p Inr by (auto simp: combine_def)
  qed
qed

section \<open>The small problem, evaluated\<close>

lemma sm_dm: "DofManager_init sm_gb = \<lparr>block_dof = [((Node sm_g, ''q''), 0), ((Node sm_g, ''p''), 1)], full_dof = [2, 2]\<rparr>"
  by (simp add: DofManager_init_def sm_gb_def node_total_local_dofs_def dict_get_def sm_g_def)

lemma upt2: "[0..<2] = [0, 1]" by (simp add: upt_conv_Cons)

lemma upt4: "[0..<4] = [0, 1, 2, 3]" by (simp add: upt_conv_Cons)

lemma sm_slices: "state_slices sm_state [[2, 3]] = Inr [[5, 6]]"
  by (simp add: state_index_def sm_state_def eval_nat_numeral)

lemma sm_seed: "initAdArrays ex_ext [[5, 6]] = [AdArray [5, 6] (Matrix 2 [[1, 0], [0, 1]])]"
  by (simp add: ex_ext_def ex_initAdArrays_def upt2)

lemma sm_dict: "dict_of_pairs [(0::int, a)] = [0 \<mapsto> a]"
  by (simp add: dict_of_pairs_def)

lemma sm_bd: "block_diag ex_ext [Matrix 2 [[1, 2], [3, 4]]] = Inr (Matrix 2 [[1, 2], [3, 4]])"
  by (simp add: ex_ext_def ex_block_diag_def)

lemma sm_mm: "matmul (Matrix 2 [[1, 2], [3, 4]]) (Matrix 2 [[1, 0], [0, 1]]) = Inr (Matrix 2 [[1, 2], [3, 4]])"
  by (simp add: matmul_def nrows_def upt2)

lemma sm_eq_flux_sel:
  "variable_dofs sm_eq_flux = [[2, 3]]" "variable_ids sm_eq_flux = [0]"
  "eq_operator sm_eq_flux = Operator Mul [sm_flux, sm_p]"
  "stored_matrices sm_eq_flux = Map.empty" "ad sm_eq_flux = None"
  by (simp_all add: sm_eq_flux_def)

lemma sm_eq_sum_sel:
  "variable_dofs sm_eq_sum = [[2, 3]]" "variable_ids sm_eq_sum = [0]"
  "eq_operator sm_eq_sum = Operator Add [sm_p, sm_p]"
  "stored_matrices sm_eq_sum = Map.empty" "ad sm_eq_sum = None"
  by (simp_all add: sm_eq_sum_def)

lemma sm_em_sel:
  "em_gb sm_em = sm_gb" "equations sm_em = [sm_eq_flux, sm_eq_sum]"
  "em_assembler sm_em = Assembler_init sm_gb" "asm_gb (Assembler_init sm_gb) = sm_gb"
  "asm_dof (Assembler_init sm_gb) = DofManager_init sm_gb"
  by (simp_all add: sm_em_def Assembler_init_def)

lemma sm_n: "sum_list (full_dof (asm_dof (em_assembler sm_em))) = 4"
  by (simp add: sm_em_sel sm_dm)

lemma sm_parse_flux:
  "fst (parse_operator ex_ext sm_gb [0 \<mapsto> AdArray [5, 6] (Matrix 2 [[1, 0], [0, 1]])]
     (Operator Mul [sm_flux, sm_p]) Map.empty)
   = Inr (AdArray [17, 39] (Matrix 2 [[1, 2], [3, 4]]))"
  by (simp add: sm_flux_def sm_p_def node_props_def sm_gb_def sm_bd combine_def)
     (simp add: ex_ext_def sm_mm mat_vec_def)

lemma sm_parse_sum:
  "fst (parse_operator ex_ext sm_gb [0 \<mapsto> AdArray [5, 6] (Matrix 2 [[1, 0], [0, 1]])]
     (Operator Add [sm_p, sm_p]) Map.empty)
   = Inr (AdArray [10, 12] (Matrix 2 [[2, 0], [0, 2]]))"
  by (simp add: sm_p_def combine_def) (simp add: ex_ext_def mat_add_def)

lemma sm_to_ad_flux:
  "fst (to_ad ex_ext (em_assembler sm_em) (em_gb sm_em) sm_state sm_eq_flux)
     = Inr (AdArray [17, 39] (Matrix 2 [[1, 2], [3, 4]]))"
proof -
  have s: "state_slices sm_state (variable_dofs sm_eq_flux) = Inr [[5, 6]]"
    by (simp only: sm_eq_flux_sel sm_slices)
  have d: "dict_of_pairs (zip [0::int] (initAdArrays ex_ext [[5, 6]]))
     = [0 \<mapsto> AdArray [5, 6] (Matrix 2 [[1, 0], [0, 1]])]"
    by (simp add: sm_seed sm_dict)
  show ?thesis
    unfolding to_ad_fst[OF s] sm_em_sel sm_eq_flux_sel d by (rule sm_parse_flux)
qed

lemma sm_to_ad_sum:
  "fst (to_ad ex_ext (em_assembler sm_em) (em_gb sm_em) sm_state sm_eq_sum)
     = Inr (AdArray [10, 12] (Matrix 2 [[2, 0], [0, 2]]))"
proof -
  have s: "state_slices sm_state (variable_dofs sm_eq_sum) = Inr [[5, 6]]"
    by (simp only: sm_eq_sum_sel sm_slices)
  have d: "dict_of_pairs (zip [0::int] (initAdArrays ex_ext [[5, 6]]))
     = [0 \<mapsto> AdArray [5, 6] (Matrix 2 [[1, 0], [0, 1]])]"
    by (simp add: sm_seed sm_dict)
  show ?thesis
    unfolding to_ad_fst[OF s] sm_em_sel sm_eq_sum_sel d by (rule sm_parse_sum)
qed

lemma sm_local_dofs: "local_dofs sm_eq_flux = Inr [2, 3]" "local_dofs sm_eq_sum = Inr [2, 3]"
  by (simp_all add: local_dofs_def hstack_def sm_eq_flux_sel sm_eq_sum_sel)

lemma sm_proj: "projection_of [2, 3] 4 = Inr (Matrix 4 [[0, 0, 1, 0], [0, 0, 0, 1]])"
  by (simp add: projection_of_def coo_matrix_def upt2 upt4 eval_nat_numeral)

lemma sm_blocks:
  "matmul (Matrix 2 [[1, 2], [3, 4]]) (Matrix 4 [[0, 0, 1, 0], [0, 0, 0, 1]])
     = Inr (Matrix 4 [[0, 0, 1, 2], [0, 0, 3, 4]])"
  "matmul (Matrix 2 [[2, 0], [0, 2]]) (Matrix 4 [[0, 0, 1, 0], [0, 0, 0, 1]])
     = Inr (Matrix 4 [[0, 0, 2, 0], [0, 0, 0, 2]])"
  by (simp_all add: matmul_def nrows_def upt2 upt4 eval_nat_numeral)

lemma sm_init:
  "Equation_init remdups (Operator Mul [sm_flux, sm_p]) (DofManager_init sm_gb) None = Inr sm_eq_flux"
  by (simp add: Equation_init_def identify_variables_def sm_flux_def sm_p_def is_variable_def
        variable_inds_def dof_ind_def sm_dm cumsum_def sm_eq_flux_def op_id_def eval_nat_numeral)

lemma sm_parts_ok:
  "list_all2 (\<lambda>eq (v, j, blk).
       fst (to_ad ex_ext (em_assembler sm_em) (em_gb sm_em) sm_state eq) = Inr (AdArray v j)
       \<and> (\<exists>idx P. local_dofs eq = Inr idx \<and> projection_of idx 4 = Inr P \<and> matmul j P = Inr blk))
     (equations sm_em) sm_parts"
  unfolding sm_em_sel(2) sm_parts_def
  using sm_to_ad_flux sm_to_ad_sum sm_local_dofs sm_proj sm_blocks by simp

lemma sm_assemble:
  "fst (assemble_matrix_rhs ex_ext sm_em sm_state)
     = Inr (Matrix 4 [[0, 0, 1, 2], [0, 0, 3, 4], [0, 0, 2, 0], [0, 0, 0, 2]],
            [- 17, - 39, - 10, - 12])"
proof -
  have ne: "equations sm_em \<noteq> []" by (simp add: sm_em_sel)
  show ?thesis
    using assemble_stacks_aux[OF ne sm_n[symmetric] sm_parts_ok, of]
    by (simp add: sm_parts_def)
qed

section \<open>Which equations an assembly evaluates\<close>

lemma assemble_loop_snd_eq:
  "snd (assemble_loop x em n state eqs acc)
     = map (\<lambda>e. snd (assemble_equation x em n state e)) (take (evaluated x em n state eqs) eqs)
       @ drop (evaluated x em n state eqs) eqs"
proof (induction x em n state eqs acc rule: assemble_loop.induct)
  case (1 x em n state acc)
  then show ?case by simp
next
  case (2 x em n state eq rest mat b)
  obtain r eq' where a: "assemble_equation x em n state eq = (r, eq')"
    by (cases "assemble_equation x em n state eq")
  show ?case
  proof (cases r)
    case (Inl e)
    then show ?thesis using a by simp
  next
    case (Inr mv)
    obtain m v where mv: "mv = (m, v)" by (cases mv)
    from 2[OF a[symmetric] Inr mv[symmetric]] show ?thesis
      using a Inr mv by (simp add: case_prod_beta)
  qed
qed

lemma to_ad_ad_eq:
  "state_slices state (variable_dofs eq) = Inr slices \<Longrightarrow>
   ad (snd (to_ad x asm gb state eq))
     = Some (dict_of_pairs (zip (variable_ids eq) (initAdArrays x slices)))"
  by (simp add: to_ad_snd)

lemma to_ad_store:
  "state_slices state (variable_dofs eq) = Inr slices \<Longrightarrow>
   stored_matrices (snd (to_ad x asm gb state eq))
     = snd (parse_operator x (asm_gb asm)
              (dict_of_pairs (zip (variable_ids eq) (initAdArrays x slices)))
              (eq_operator eq) (stored_matrices eq))"
  by (simp add: to_ad_snd)

lemma sm_short_state: "state_slices [7, 8] (variable_dofs sm_eq_flux) = Inl IndexError"
  by (simp add: sm_eq_flux_sel state_index_def)

lemma sm_flux_store:
  "snd (parse_operator ex_ext sm_gb [0 \<mapsto> AdArray [5, 6] (Matrix 2 [[1, 0], [0, 1]])]
     (Operator Mul [sm_flux, sm_p]) Map.empty) sm_flux
   = Some (Matrix 2 [[1, 2], [3, 4]])"
  by (simp add: sm_flux_def sm_p_def node_props_def sm_gb_def sm_bd combine_def)

section \<open>The claims about equations and their assembly\<close>

text \<open>
  Claim C1. For an equation built by its constructor with the layout of the manager's
  assembler, whose \<open>local_dofs()\<close> is the index array \<open>idx\<close>: the projection matrix is
  built, has as many rows as \<open>idx\<close> is long and as many columns as there are global
  dofs; row \<open>i\<close> has a one in column \<open>idx[i]\<close> and zero in every other column; and the
  block that the equation contributes is its local Jacobian times this matrix, next to
  the negated residual.
\<close>

theorem projection_scatter:
  assumes init: "Equation_init set_list t dm name = Inr eq0"
      and same: "variable_dofs eq = variable_dofs eq0"
      and ld: "local_dofs eq = Inr idx"
      and asm: "asm_dof (em_assembler em) = dm"
      and n: "n = sum_list (full_dof (asm_dof (em_assembler em)))"
  shows "\<exists>P. projection_of idx n = Inr P
           \<and> nrows P = length idx \<and> ncols P = n
           \<and> (\<forall>i<length idx. length (mrows P ! i) = n \<and> idx ! i < n
                 \<and> mrows P ! i ! (idx ! i) = 1
                 \<and> (\<forall>j<n. j \<noteq> idx ! i \<longrightarrow> mrows P ! i ! j = 0))
           \<and> (\<forall>v j. fst (to_ad x (em_assembler em) (em_gb em) state eq) = Inr (AdArray v j)
                 \<longrightarrow> fst (assemble_equation x em n state eq)
                       = (case matmul j P of Inl e \<Rightarrow> Inl e | Inr m \<Rightarrow> Inr (m, map uminus v)))"
proof -
  have "list_all (list_all (\<lambda>i. i < n)) (variable_dofs eq)"
    using Equation_init_in_range[OF init] by (simp add: same n asm)
  moreover have idx: "idx = concat (variable_dofs eq)"
    using ld by (auto simp: local_dofs_def hstack_def split: if_splits)
  ultimately have r: "list_all (\<lambda>i. i < n) idx" by (auto simp: list_all_iff)
  let ?P = "Matrix n (map (\<lambda>i. map (\<lambda>j. if idx ! i = j then 1 else 0) [0..<n]) [0..<length idx])"
  have P: "projection_of idx n = Inr ?P" by (rule projection_of_eq[OF r])
  have in_n: "\<And>i. i < length idx \<Longrightarrow> idx ! i < n"
    using r by (simp add: list_all_length)
  show ?thesis
  proof (intro exI[of _ ?P] conjI allI impI)
    show "projection_of idx n = Inr ?P" by (rule P)
    show "nrows ?P = length idx" by (simp add: nrows_def)
    show "ncols ?P = n" by simp
  next
    fix i assume "i < length idx"
    then show "length (mrows ?P ! i) = n" by simp
  next
    fix i assume "i < length idx"
    then show "idx ! i < n" by (rule in_n)
  next
    fix i assume i: "i < length idx"
    then show "mrows ?P ! i ! (idx ! i) = 1" using in_n[OF i] by simp
  next
    fix i j assume "i < length idx" "j < n" "j \<noteq> idx ! i"
    then show "mrows ?P ! i ! j = 0" by auto
  next
    fix v j assume "fst (to_ad x (em_assembler em) (em_gb em) state eq) = Inr (AdArray v j)"
    then show "fst (assemble_equation x em n state eq)
                 = (case matmul j ?P of Inl e \<Rightarrow> Inl e | Inr m \<Rightarrow> Inr (m, map uminus v))"
      by (simp add: assemble_equation_fst ld P)
  qed
qed

theorem projection_scatter_witness:
  "Equation_init remdups (Operator Mul [sm_flux, sm_p]) (DofManager_init sm_gb) None = Inr sm_eq_flux
   \<and> local_dofs sm_eq_flux = Inr [2, 3]
   \<and> asm_dof (em_assembler sm_em) = DofManager_init sm_gb
   \<and> projection_of [2, 3] 4 = Inr (Matrix 4 [[0, 0, 1, 0], [0, 0, 0, 1]])
   \<and> fst (assemble_equation ex_ext sm_em 4 sm_state sm_eq_flux)
       = Inr (Matrix 4 [[0, 0, 1, 2], [0, 0, 3, 4]], [- 17, - 39])"
proof -
  have a: "asm_dof (em_assembler sm_em) = DofManager_init sm_gb" by (simp add: sm_em_sel)
  from projection_scatter[OF sm_init refl sm_local_dofs(1) a sm_n[symmetric],
         of ex_ext sm_state]
  obtain P where P: "projection_of [2, 3] 4 = Inr P"
    and c: "\<forall>v j. fst (to_ad ex_ext (em_assembler sm_em) (em_gb sm_em) sm_state sm_eq_flux)
                     = Inr (AdArray v j)
             \<longrightarrow> fst (assemble_equation ex_ext sm_em 4 sm_state sm_eq_flux)
                   = (case matmul j P of Inl e \<Rightarrow> Inl e | Inr m \<Rightarrow> Inr (m, map uminus v))"
    by blast
  have Pm: "P = Matrix 4 [[0, 0, 1, 0], [0, 0, 0, 1]]" using P sm_proj by simp
  from c sm_to_ad_flux
  have "fst (assemble_equation ex_ext sm_em 4 sm_state sm_eq_flux)
          = (case matmul (Matrix 2 [[1, 2], [3, 4]]) P of
               Inl e \<Rightarrow> Inl e | Inr m \<Rightarrow> Inr (m, map uminus [17, 39]))"
    by blast
  then have "fst (assemble_equation ex_ext sm_em 4 sm_state sm_eq_flux)
          = Inr (Matrix 4 [[0, 0, 1, 2], [0, 0, 3, 4]], [- 17, - 39])"
    by (simp add: Pm sm_blocks)
  then show ?thesis using sm_init sm_local_dofs(1) a sm_proj by simp
qed

text \<open>
  Claim C5. For a manager with at least one equation, each of which evaluates to an AD
  array whose Jacobian times the equation's projection is a block: the matrix returned
  has the rows of these blocks one under the other in the order of the equations, and
  the right-hand side is the negated residuals one after the other in the same order.
\<close>

theorem assemble_matrix_rhs_stacks:
  assumes "equations em \<noteq> []"
      and "n = sum_list (full_dof (asm_dof (em_assembler em)))"
      and "list_all2 (\<lambda>eq (v, j, blk).
                     fst (to_ad x (em_assembler em) (em_gb em) state eq) = Inr (AdArray v j)
                     \<and> (\<exists>idx P. local_dofs eq = Inr idx \<and> projection_of idx n = Inr P
                                 \<and> matmul j P = Inr blk))
                   (equations em) parts"
  shows "fst (assemble_matrix_rhs x em state)
           = Inr (Matrix n (concat (map (\<lambda>(v, j, blk). mrows blk) parts)),
                  concat (map (\<lambda>(v, j, blk). map uminus v) parts))"
  using assms by (rule assemble_stacks_aux)

theorem assemble_matrix_rhs_stacks_witness:
  "equations sm_em \<noteq> []
   \<and> 4 = sum_list (full_dof (asm_dof (em_assembler sm_em)))
   \<and> list_all2 (\<lambda>eq (v, j, blk).
       fst (to_ad ex_ext (em_assembler sm_em) (em_gb sm_em) sm_state eq) = Inr (AdArray v j)
       \<and> (\<exists>idx P. local_dofs eq = Inr idx \<and> projection_of idx 4 = Inr P \<and> matmul j P = Inr blk))
     (equations sm_em) sm_parts
   \<and> fst (assemble_matrix_rhs ex_ext sm_em sm_state)
     = Inr (Matrix 4 [[0, 0, 1, 2], [0, 0, 3, 4], [0, 0, 2, 0], [0, 0, 0, 2]],
            [- 17, - 39, - 10, - 12])"
proof -
  have ne: "equations sm_em \<noteq> []" by (simp add: sm_em_sel)
  have r: "fst (assemble_matrix_rhs ex_ext sm_em sm_state)
     = Inr (Matrix 4 [[0, 0, 1, 2], [0, 0, 3, 4], [0, 0, 2, 0], [0, 0, 0, 2]],
            [- 17, - 39, - 10, - 12])"
    using assemble_matrix_rhs_stacks[OF ne sm_n[symmetric] sm_parts_ok]
    by (simp add: sm_parts_def)
  show ?thesis using ne sm_n sm_parts_ok r by simp
qed

text \<open>
  The second assembly of the small problem returns the same pair as the first.
\<close>

theorem assemble_matrix_rhs_idempotent_witness:
  "fst (assemble_matrix_rhs ex_ext (snd (assemble_matrix_rhs ex_ext sm_em sm_state)) sm_state)
     = Inr (Matrix 4 [[0, 0, 1, 2], [0, 0, 3, 4], [0, 0, 2, 0], [0, 0, 0, 2]],
            [- 17, - 39, - 10, - 12])"
  using assemble_matrix_rhs_idempotent[of ex_ext sm_em sm_state] sm_assemble by simp

text \<open>
  Claim C7, at a node the code accepts: a multiplication or a division with three
  children raises nothing. It is evaluated on the first two children and the third is
  dropped; with the scalars 2, 3 and 5 the product is 6.
\<close>

theorem mul_div_three_children:
  "parse_operator ex_ext gb ads (Operator Mul [ScalarOp 2, ScalarOp 3, ScalarOp 5]) c
     = (Inr (ScalV 6), c)
   \<and> parse_operator x gb ads (Operator Mul [ScalarOp 2, ScalarOp 3, ScalarOp 5]) c
     = (v_mul x (ScalV 2) (ScalV 3), c)
   \<and> parse_operator x gb ads (Operator Div [ScalarOp 2, ScalarOp 3, ScalarOp 5]) c
     = (v_div x (ScalV 2) (ScalV 3), c)"
  by (simp add: combine_def ex_ext_def)

text \<open>
  Claim C9, as the code has it. \<open>to_ad\<close> leaves the operator tree, the name, the index
  arrays and the ids of the equation as they were. A call that raises while the state
  is read at the indices of the equation changes nothing of the equation. Every other
  call assigns \<open>_ad\<close> the dictionary from the stored ids to the newly seeded AD arrays,
  also when the evaluation of the tree then raises, and the store of matrices keeps
  what it had and gains only matrices computed for operators that had none.
  \<open>assemble_matrix_rhs\<close> does this to the equations that it evaluates, which are those
  up to and including the first that raises, leaves the other equations untouched, and
  leaves the grid bucket and the assembler of the manager as they were.
\<close>

theorem to_ad_changes_ad_and_store_only:
  "eq_operator (snd (to_ad x asm gb state eq)) = eq_operator eq
   \<and> eq_name (snd (to_ad x asm gb state eq)) = eq_name eq
   \<and> variable_dofs (snd (to_ad x asm gb state eq)) = variable_dofs eq
   \<and> variable_ids (snd (to_ad x asm gb state eq)) = variable_ids eq
   \<and> (\<exists>a c. snd (to_ad x asm gb state eq) = eq\<lparr>ad := a, stored_matrices := c\<rparr>
             \<and> cache_ext x (asm_gb asm) (stored_matrices eq) c)
   \<and> (case state_slices state (variable_dofs eq) of
         Inl e \<Rightarrow> to_ad x asm gb state eq = (Inl e, eq)
       | Inr slices \<Rightarrow>
           ad (snd (to_ad x asm gb state eq))
             = Some (dict_of_pairs (zip (variable_ids eq) (initAdArrays x slices))))
   \<and> list_all2 (\<lambda>e e'. \<exists>a c. e' = e\<lparr>ad := a, stored_matrices := c\<rparr>
                     \<and> cache_ext x (asm_gb (em_assembler em)) (stored_matrices e) c)
        (equations em) (equations (snd (assemble_matrix_rhs x em state)))
   \<and> equations (snd (assemble_matrix_rhs x em state))
       = map (\<lambda>e. snd (to_ad x (em_assembler em) (em_gb em) state e))
           (take (evaluated x em (sum_list (full_dof (asm_dof (em_assembler em)))) state
                    (equations em)) (equations em))
         @ drop (evaluated x em (sum_list (full_dof (asm_dof (em_assembler em)))) state
                    (equations em)) (equations em)
   \<and> em_gb (snd (assemble_matrix_rhs x em state)) = em_gb em
   \<and> em_assembler (snd (assemble_matrix_rhs x em state)) = em_assembler em"
proof -
  obtain a c where f: "snd (to_ad x asm gb state eq) = eq\<lparr>ad := a, stored_matrices := c\<rparr>"
    and g: "cache_ext x (asm_gb asm) (stored_matrices eq) c"
    using to_ad_frame[of x asm gb state eq] by blast
  let ?n = "sum_list (full_dof (asm_dof (em_assembler em)))"
  have l: "list_all2 (\<lambda>e e'. \<exists>a c. e' = e\<lparr>ad := a, stored_matrices := c\<rparr>
                     \<and> cache_ext x (asm_gb (em_assembler em)) (stored_matrices e) c)
        (equations em) (snd (assemble_loop x em ?n state (equations em) ([], [])))"
    by (rule list_all2_mono[OF assemble_loop_snd])
       (use assemble_equation_frame equation_unchanged_frame in metis)
  have s: "(case state_slices state (variable_dofs eq) of
         Inl e \<Rightarrow> to_ad x asm gb state eq = (Inl e, eq)
       | Inr slices \<Rightarrow>
           ad (snd (to_ad x asm gb state eq))
             = Some (dict_of_pairs (zip (variable_ids eq) (initAdArrays x slices))))"
    by (cases "state_slices state (variable_dofs eq)") (simp_all add: to_ad_error to_ad_ad_eq)
  have e: "snd (assemble_loop x em ?n state (equations em) ([], []))
       = map (\<lambda>e. snd (to_ad x (em_assembler em) (em_gb em) state e))
           (take (evaluated x em ?n state (equations em)) (equations em))
         @ drop (evaluated x em ?n state (equations em)) (equations em)"
    unfolding assemble_loop_snd_eq assemble_equation_snd ..
  have fields: "eq_operator (snd (to_ad x asm gb state eq)) = eq_operator eq"
    "eq_name (snd (to_ad x asm gb state eq)) = eq_name eq"
    "variable_dofs (snd (to_ad x asm gb state eq)) = variable_dofs eq"
    "variable_ids (snd (to_ad x asm gb state eq)) = variable_ids eq"
    by (simp_all add: f)
  have ex: "\<exists>a c. snd (to_ad x asm gb state eq) = eq\<lparr>ad := a, stored_matrices := c\<rparr>
             \<and> cache_ext x (asm_gb asm) (stored_matrices eq) c"
    using f g by blast
  have m: "equations (snd (assemble_matrix_rhs x em state))
             = snd (assemble_loop x em ?n state (equations em) ([], []))"
    "em_gb (snd (assemble_matrix_rhs x em state)) = em_gb em"
    "em_assembler (snd (assemble_matrix_rhs x em state)) = em_assembler em"
    by (simp_all add: assemble_matrix_rhs_snd)
  show ?thesis
    unfolding m by (intro conjI) (fact fields ex s l e | rule refl)+
qed

text \<open>
  On the small problem: with a state of two values the call raises and the equation
  \<open>flux * p\<close> is as before; with the state of four values \<open>_ad\<close>, unset before, holds the
  seeded AD array of \<open>p\<close>, and the store, empty before, holds the flux matrix.
\<close>

theorem to_ad_changes_ad_and_store_only_witness:
  "to_ad ex_ext (Assembler_init sm_gb) sm_gb [7, 8] sm_eq_flux = (Inl IndexError, sm_eq_flux)
   \<and> ad sm_eq_flux = None
   \<and> ad (snd (to_ad ex_ext (Assembler_init sm_gb) sm_gb sm_state sm_eq_flux))
       = Some [0 \<mapsto> AdArray [5, 6] (Matrix 2 [[1, 0], [0, 1]])]
   \<and> stored_matrices sm_eq_flux sm_flux = None
   \<and> stored_matrices (snd (to_ad ex_ext (Assembler_init sm_gb) sm_gb sm_state sm_eq_flux)) sm_flux
       = Some (Matrix 2 [[1, 2], [3, 4]])"
proof -
  have s: "state_slices sm_state (variable_dofs sm_eq_flux) = Inr [[5, 6]]"
    by (simp only: sm_eq_flux_sel sm_slices)
  have d: "dict_of_pairs (zip (variable_ids sm_eq_flux) (initAdArrays ex_ext [[5, 6]]))
     = [0 \<mapsto> AdArray [5, 6] (Matrix 2 [[1, 0], [0, 1]])]"
    by (simp add: sm_eq_flux_sel sm_seed sm_dict)
  have 1: "to_ad ex_ext (Assembler_init sm_gb) sm_gb [7, 8] sm_eq_flux = (Inl IndexError, sm_eq_flux)"
    using to_ad_changes_ad_and_store_only[of ex_ext "Assembler_init sm_gb" sm_gb "[7, 8]" sm_eq_flux]
    by (simp only: sm_short_state sum.case)
  have 2: "ad (snd (to_ad ex_ext (Assembler_init sm_gb) sm_gb sm_state sm_eq_flux))
       = Some [0 \<mapsto> AdArray [5, 6] (Matrix 2 [[1, 0], [0, 1]])]"
    using to_ad_changes_ad_and_store_only[of ex_ext "Assembler_init sm_gb" sm_gb sm_state sm_eq_flux]
    by (simp only: s sum.case d)
  have 3: "stored_matrices (snd (to_ad ex_ext (Assembler_init sm_gb) sm_gb sm_state sm_eq_flux)) sm_flux
       = Some (Matrix 2 [[1, 2], [3, 4]])"
  proof -
    have d0: "dict_of_pairs (zip [0::int] (initAdArrays ex_ext [[5, 6]]))
       = [0 \<mapsto> AdArray [5, 6] (Matrix 2 [[1, 0], [0, 1]])]"
      by (simp add: sm_seed sm_dict)
    show ?thesis
      unfolding to_ad_store[OF s] sm_em_sel(4) sm_eq_flux_sel d0 by (rule sm_flux_store)
  qed
  show ?thesis using 1 2 3 by (simp add: sm_eq_flux_sel)
qed

text \<open>
  Claim C9, as stated, fails: after \<open>to_ad\<close> the equation \<open>flux * p\<close> of the small problem
  differs from the equation before the call in more than its store of matrices, as its
  field \<open>_ad\<close> is now assigned.
\<close>

theorem to_ad_assigns_ad:
  "\<not> (\<exists>c. snd (to_ad ex_ext (Assembler_init sm_gb) sm_gb sm_state sm_eq_flux)
            = sm_eq_flux\<lparr>stored_matrices := c\<rparr>)"
proof
  assume "\<exists>c. snd (to_ad ex_ext (Assembler_init sm_gb) sm_gb sm_state sm_eq_flux)
            = sm_eq_flux\<lparr>stored_matrices := c\<rparr>"
  then obtain c where "snd (to_ad ex_ext (Assembler_init sm_gb) sm_gb sm_state sm_eq_flux)
            = sm_eq_flux\<lparr>stored_matrices := c\<rparr>" ..
  then have "ad (snd (to_ad ex_ext (Assembler_init sm_gb) sm_gb sm_state sm_eq_flux)) = None"
    by (simp add: sm_eq_flux_sel)
  moreover have "state_slices sm_state (variable_dofs sm_eq_flux) = Inr [[5, 6]]"
    by (simp only: sm_eq_flux_sel sm_slices)
  ultimately show False using to_ad_ad by blast
qed

section \<open>The variables of an equation\<close>

lemma leaves_are_variables: "v \<in> set (leaves t) \<Longrightarrow> is_variable v"
  by (induction t rule: leaves.induct) (auto simp: is_variable_def)

lemma filter_leaves: "filter is_variable (leaves t) = leaves t"
  by (simp add: leaves_are_variables)

lemma find_subtree_variables_eq:
  "find_subtree_variables t = (if is_variable t then One t else Many (leaves t))"
proof (induction t rule: find_subtree_variables.induct)
  case (3 tag children)
  have m: "map (\<lambda>child. case find_subtree_variables child of
                        One var \<Rightarrow> [var] | Many vars \<Rightarrow> filter is_variable vars) children
        = map leaves children"
  proof (rule map_cong[OF refl])
    fix child assume c: "child \<in> set children"
    show "(case find_subtree_variables child of
             One var \<Rightarrow> [var] | Many vars \<Rightarrow> filter is_variable vars) = leaves child"
    proof (cases "is_variable child")
      case True
      then have "leaves child = [child]"
        by (cases child) (simp_all add: is_variable_def)
      then show ?thesis using 3[OF c] True by simp
    next
      case False
      then show ?thesis using 3[OF c] by (simp add: filter_leaves)
    qed
  qed
  show ?case unfolding find_subtree_variables.simps leaves.simps m
    by (simp add: is_variable_def)
qed (simp_all add: is_variable_def)

lemma sub_var_inds_collect:
  "sub_var_inds dm subs = collect (map (\<lambda>s. dof_ind dm (var_g s) (var_name s)) subs)"
  by (induction subs) (simp_all split: sum.splits)

lemma collect_length: "collect rs = Inr as \<Longrightarrow> length as = length rs"
  by (induction rs arbitrary: as) (auto split: sum.splits)

lemma variable_inds_eq:
  assumes "is_variable v"
  shows "variable_inds dm v
           = (case spec_var_dofs dm v of Inl e \<Rightarrow> Inl e | Inr ind \<Rightarrow> Inr (ind, [op_id v]))"
proof (cases v)
  case (VariableOp w)
  then show ?thesis
    by (simp add: variable_inds_def spec_var_dofs_def op_id_def split: sum.splits)
next
  case (MergedVariableOp obj sv rest)
  show ?thesis
  proof (cases "collect (map (\<lambda>s. dof_ind dm (var_g s) (var_name s)) (sv # rest))")
    case (Inl e)
    then show ?thesis using MergedVariableOp
      by (simp add: variable_inds_def spec_var_dofs_def sub_var_inds_collect)
  next
    case (Inr inds)
    have "inds \<noteq> []" using collect_length[OF Inr] by auto
    then show ?thesis using MergedVariableOp Inr
      by (simp add: variable_inds_def spec_var_dofs_def sub_var_inds_collect hstack_def
            op_id_def)
  qed
qed (use assms in \<open>simp_all add: is_variable_def\<close>)

lemma variables_loop_eq:
  "(\<And>v. v \<in> set vs \<Longrightarrow> is_variable v) \<Longrightarrow>
   variables_loop dm vs (inds0, ids0)
     = (case collect (map (spec_var_dofs dm) vs) of
          Inl e \<Rightarrow> Inl e
        | Inr inds \<Rightarrow> Inr (inds0 @ inds, ids0 @ map op_id vs))"
proof (induction vs arbitrary: inds0 ids0)
  case Nil
  then show ?case by simp
next
  case (Cons v vs)
  have v: "is_variable v" using Cons.prems by simp
  have r: "\<And>w. w \<in> set vs \<Longrightarrow> is_variable w" using Cons.prems by simp
  show ?case
    by (simp add: variable_inds_eq[OF v] Cons.IH[OF r] split: sum.splits)
qed

lemma identify_variables_loop:
  "\<not> is_variable t \<Longrightarrow>
   identify_variables set_list dm t
     = variables_loop dm (sort_key op_id (set_list (leaves t))) ([], [])"
  by (simp add: identify_variables_def find_subtree_variables_eq)

lemma identify_variables_single:
  "is_variable t \<Longrightarrow> identify_variables set_list dm t = Inl TypeError"
  by (simp add: identify_variables_def find_subtree_variables_eq)

lemma collect_map_Inr: "collect (map Inr as) = Inr as"
  by (induction as) simp_all

lemma collect_InrD: "collect rs = Inr as \<Longrightarrow> rs = map Inr as"
  by (induction rs arbitrary: as) (auto split: sum.splits)

lemma collect_Inr_iff: "collect rs = Inr as \<longleftrightarrow> rs = map Inr as"
  using collect_map_Inr collect_InrD by metis

lemma sorted_ids:
  assumes "distinct (map f xs)"
  shows "map f (sort_key f xs) = sorted_list_of_set (f ` set xs)"
proof -
  have "sorted (map f (sort_key f xs))" by (rule sorted_sort_key)
  moreover have "distinct (map f (sort_key f xs))"
    using assms by (metis distinct_map distinct_sort set_sort)
  moreover have "set (map f (sort_key f xs)) = f ` set xs" by simp
  ultimately show ?thesis
    by (metis sorted_list_of_set.idem_if_sorted_distinct)
qed

text \<open>
  A tree that is not a single variable, with a set that holds one variable for each id
  of a leaf: the variables of the equation are leaves of the tree, their ids are the
  ids of all the leaves, each once and in ascending order, whatever the order of the
  set. When the constructor returns, the index arrays of the equation are those of
  these variables in this order, the stored ids are their ids, and \<open>local_dofs()\<close> is
  the arrays one after the other (it raises when there is no variable); and the
  constructor returns when every variable has its indices. The id of a merged
  variable, by which it is sorted, seeded and found at a leaf, is the id of its first
  sub-variable.
\<close>

lemma identify_variables_sorted:
  assumes ids: "distinct (map op_id (set_list (leaves t)))"
      and sub: "set (set_list (leaves t)) \<subseteq> set (leaves t)"
      and all: "op_id ` set (set_list (leaves t)) = op_id ` set (leaves t)"
      and nv: "\<not> is_variable t"
      and vars: "vars = sort_key op_id (set_list (leaves t))"
  shows "map op_id vars = sorted_list_of_set (op_id ` set (leaves t))
     \<and> set vars \<subseteq> set (leaves t)
     \<and> (\<forall>eq. Equation_init set_list t dm name = Inr eq \<longrightarrow>
           map (spec_var_dofs dm) vars = map Inr (variable_dofs eq)
           \<and> variable_ids eq = map op_id vars
           \<and> local_dofs eq = (if vars = [] then Inl ValueError
                              else Inr (concat (variable_dofs eq))))
     \<and> (\<forall>inds. map (spec_var_dofs dm) vars = map Inr inds \<longrightarrow>
           (\<exists>eq. Equation_init set_list t dm name = Inr eq \<and> variable_dofs eq = inds))
     \<and> (\<forall>x gb ads obj sv rest c.
           op_id (MergedVariableOp obj sv rest) = var_id sv
           \<and> parse_operator x gb ads (MergedVariableOp obj sv rest) c
               = ((case ads (var_id sv) of
                     None \<Rightarrow> Inl (KeyError (IdKey (var_id sv))) | Some a \<Rightarrow> Inr a), c))"
proof -
  have sv: "set vars \<subseteq> set (leaves t)" using sub by (simp add: vars)
  have isv: "\<And>v. v \<in> set vars \<Longrightarrow> is_variable v"
    using sv leaves_are_variables by blast
  have loop: "identify_variables set_list dm t
     = (case collect (map (spec_var_dofs dm) vars) of
          Inl e \<Rightarrow> Inl e
        | Inr inds \<Rightarrow> Inr (inds, map op_id vars))"
    using identify_variables_loop[OF nv, of set_list dm] variables_loop_eq[OF isv, of vars dm "[]" "[]"]
    by (simp add: vars cong: sum.case_cong)
  show ?thesis
  proof (intro conjI allI impI)
    show "map op_id vars = sorted_list_of_set (op_id ` set (leaves t))"
      unfolding vars sorted_ids[OF ids] all ..
    show "set vars \<subseteq> set (leaves t)" by (rule sv)
  next
    fix eq assume e: "Equation_init set_list t dm name = Inr eq"
    then have i: "identify_variables set_list dm t = Inr (variable_dofs eq, variable_ids eq)"
      by (auto simp: Equation_init_def split: sum.splits)
    from i loop have c: "collect (map (spec_var_dofs dm) vars) = Inr (variable_dofs eq)"
      and d: "variable_ids eq = map op_id vars"
      by (auto split: sum.splits)
    show m: "map (spec_var_dofs dm) vars = map Inr (variable_dofs eq)"
      using c by (simp add: collect_Inr_iff)
    show "variable_ids eq = map op_id vars" by (rule d)
    have "length vars = length (variable_dofs eq)" using m by (metis length_map)
    then show "local_dofs eq = (if vars = [] then Inl ValueError
                              else Inr (concat (variable_dofs eq)))"
      by (auto simp: local_dofs_def hstack_def)
  next
    fix inds assume "map (spec_var_dofs dm) vars = map Inr inds"
    then have "collect (map (spec_var_dofs dm) vars) = Inr inds"
      by (simp add: collect_Inr_iff)
    then show "\<exists>eq. Equation_init set_list t dm name = Inr eq \<and> variable_dofs eq = inds"
      by (simp add: Equation_init_def loop)
  next
    fix x gb ads obj sv rest c
    show "op_id (MergedVariableOp obj sv rest) = var_id sv" by (simp add: op_id_def)
    show "parse_operator x gb ads (MergedVariableOp obj sv rest) c
               = ((case ads (var_id sv) of
                     None \<Rightarrow> Inl (KeyError (IdKey (var_id sv))) | Some a \<Rightarrow> Inr a), c)"
      by simp
  qed
qed

lemma ex_dof_inds:
  "dof_ind (DofManager_init ex_gb) (Node ex_g1) ''p'' = Inr [0, 1]"
  "dof_ind (DofManager_init ex_gb) (Node ex_g2) ''p'' = Inr [9, 10]"
  "dof_ind (DofManager_init ex_gb) (Node ex_g1) ''u'' = Inr [2, 3, 4, 5, 6, 7, 8]"
  by (simp_all add: dof_ind_def ex_dm cumsum_def ex_g1_def ex_g2_def upt_conv_Cons)

lemma wit_leaves:
  "leaves wit_tree = [VariableOp ex_u, ex_merged, VariableOp ex_p1, VariableOp ex_u]"
  by (simp add: wit_tree_def ex_merged_def)

lemma wit_set: "first_by_id (leaves wit_tree) = [VariableOp ex_u, ex_merged]"
  by (simp add: wit_leaves first_by_id_def ex_merged_def op_id_def ex_u_def ex_p1_def)

lemma wit_vars: "sort_key op_id (first_by_id (leaves wit_tree)) = [ex_merged, VariableOp ex_u]"
  by (simp add: wit_set ex_merged_def op_id_def ex_u_def ex_p1_def)

lemma wit_spec_dofs:
  "map (spec_var_dofs (DofManager_init ex_gb)) [ex_merged, VariableOp ex_u]
     = map Inr [[0, 1, 9, 10], [2, 3, 4, 5, 6, 7, 8]]"
  by (simp add: spec_var_dofs_def ex_merged_def ex_p1_def ex_p2_def ex_u_def ex_dof_inds)

text \<open>
  On the small grid bucket: of the leaves \<open>u\<close>, the merged \<open>p\<close>, its first sub-variable
  and \<open>u\<close> again, the merged variable with id 0 and \<open>u\<close> with id 5 are the variables.
\<close>

lemma wit_init:
  "\<exists>eq. Equation_init first_by_id wit_tree (DofManager_init ex_gb) None = Inr eq
        \<and> variable_dofs eq = [[0, 1, 9, 10], [2, 3, 4, 5, 6, 7, 8]]
        \<and> variable_ids eq = [0, 5]
        \<and> local_dofs eq = Inr [0, 1, 9, 10, 2, 3, 4, 5, 6, 7, 8]"
proof -
  let ?dm = "DofManager_init ex_gb"
  have h1: "distinct (map op_id (first_by_id (leaves wit_tree)))"
    by (simp add: wit_set ex_merged_def op_id_def ex_u_def ex_p1_def)
  have h2: "set (first_by_id (leaves wit_tree)) \<subseteq> set (leaves wit_tree)"
    by (subst wit_set, subst wit_leaves) simp
  have h3: "op_id ` set (first_by_id (leaves wit_tree)) = op_id ` set (leaves wit_tree)"
    by (subst wit_set, subst wit_leaves) (auto simp: ex_merged_def op_id_def ex_u_def ex_p1_def)
  have h4: "\<not> is_variable wit_tree" by (simp add: wit_tree_def is_variable_def)
  note t = identify_variables_sorted[where set_list = first_by_id and t = wit_tree
      and vars = "[ex_merged, VariableOp ex_u]" and dm = ?dm and name = None,
      OF h1 h2 h3 h4 wit_vars[symmetric]]
  from t wit_spec_dofs obtain eq where
    e: "Equation_init first_by_id wit_tree ?dm None = Inr eq"
    and vd: "variable_dofs eq = [[0, 1, 9, 10], [2, 3, 4, 5, 6, 7, 8]]" by blast
  from t e have i: "variable_ids eq = map op_id [ex_merged, VariableOp ex_u]"
    and l: "local_dofs eq = (if [ex_merged, VariableOp ex_u] = [] then Inl ValueError
                              else Inr (concat (variable_dofs eq)))"
    by blast+
  have vi: "variable_ids eq = [0, 5]"
    using i by (simp add: op_id_def ex_merged_def ex_p1_def ex_u_def)
  have ld: "local_dofs eq = Inr [0, 1, 9, 10, 2, 3, 4, 5, 6, 7, 8]"
    using l by (simp add: vd)
  show ?thesis using e vd vi ld by blast
qed

text \<open>
  Claim C2, at a tree the code does not take: for a tree that is a single variable or
  merged variable, \<open>_find_subtree_variables\<close> returns the variable and not a list,
  \<open>set(\<dots>)\<close> of it raises \<open>TypeError\<close>, and the constructor of the equation returns no
  equation, where the claim has the variable as the one variable of the equation, with
  its index array. So for \<open>u\<close> on the small grid bucket, whose indices are 2 to 8.
\<close>

theorem Equation_init_single_variable:
  "Equation_init set_list (VariableOp v) dm name = Inl TypeError
   \<and> Equation_init set_list (MergedVariableOp obj sv rest) dm name = Inl TypeError
   \<and> leaves (VariableOp ex_u) = [VariableOp ex_u]
   \<and> spec_var_dofs (DofManager_init ex_gb) (VariableOp ex_u) = Inr [2, 3, 4, 5, 6, 7, 8]
   \<and> Equation_init first_by_id (VariableOp ex_u) (DofManager_init ex_gb) None = Inl TypeError"
  by (simp add: Equation_init_def identify_variables_single is_variable_def
        spec_var_dofs_def ex_u_def ex_dof_inds)

end
